theory Spec2Isabelle
  imports Main "HOL-Library.Word"
begin

unbundle bit_operations_syntax

section \<open>The byte stream\<close>

type_synonym u8 = "8 word"

type_synonym u16 = "16 word"

type_synonym u32 = "32 word"

text \<open>
  The \<^verbatim>\<open>ifstream\<close> opened in binary mode: the bytes of the file and the read cursor.
\<close>

record stream =
  bytes :: "u8 list"
  pos :: nat

text \<open>
  The parser has no error handling of its own. The outcomes below are the places where
  the C++ leaves defined behaviour; the model stops there with an error value.
  \<^item> \<open>ReadPastEnd\<close>: a read finds no byte left. The \<^verbatim>\<open>ifstream\<close> enters its fail
    state, every later read and seek fails as well, so the cursor never moves again and
    end-of-track can never be decoded any more; the next \<^verbatim>\<open>readVariableLengthData\<close>
    (at the latest the one that opens the next loop iteration) tests its uninitialised
    \<^verbatim>\<open>temp\<close>.
  \<^item> \<open>SeekBeforeStart\<close>: \<^verbatim>\<open>seekg(-1, cur)\<close> at offset 0.
  \<^item> \<open>DivisionByZero\<close>: the set-tempo case divides by a zero \<^verbatim>\<open>mspm\<close>.
  \<^item> \<open>NoSuchTrack\<close>: \<^verbatim>\<open>trackNotes[track_num]\<close> indexed out of range.
\<close>

datatype error = ReadPastEnd | SeekBeforeStart | DivisionByZero | NoSuchTrack

definition bindE :: "error + 'a \<Rightarrow> ('a \<Rightarrow> error + 'b) \<Rightarrow> error + 'b" where
  "bindE m f = (case m of Inl e \<Rightarrow> Inl e | Inr x \<Rightarrow> f x)"

text \<open>\<^verbatim>\<open>file.read((char *)&x, sizeof(char))\<close> and \<^verbatim>\<open>file.get()\<close>: one byte.\<close>

definition readByte :: "stream \<Rightarrow> error + (u8 \<times> stream)" where
  "readByte s =
     (if pos s < length (bytes s) then Inr (bytes s ! pos s, s\<lparr>pos := pos s + 1\<rparr>)
      else Inl ReadPastEnd)"

text \<open>\<^verbatim>\<open>file.seekg(-1, std::ios_base::cur)\<close>.\<close>

definition seekBack :: "stream \<Rightarrow> error + stream" where
  "seekBack s = (if pos s = 0 then Inl SeekBeforeStart else Inr (s\<lparr>pos := pos s - 1\<rparr>))"

text \<open>\<^verbatim>\<open>stream_object.read(buf, n)\<close> into a buffer of \<open>n\<close> bytes.\<close>

definition readBlock :: "nat \<Rightarrow> stream \<Rightarrow> error + (u8 list \<times> stream)" where
  "readBlock n s =
     (if pos s + n \<le> length (bytes s)
      then Inr (take n (drop (pos s) (bytes s)), s\<lparr>pos := pos s + n\<rparr>)
      else Inl ReadPastEnd)"

section \<open>Variable-length quantities\<close>

definition isMSBHigh :: "u8 \<Rightarrow> bool" where
  "isMSBHigh input = ((input AND 0x80) \<noteq> 0)"

text \<open>The \<^verbatim>\<open>while (in_progress)\<close> loop of \<^verbatim>\<open>readVariableLengthData\<close>.\<close>

function vlqLoop :: "bool \<Rightarrow> u32 \<Rightarrow> stream \<Rightarrow> error + (u32 \<times> stream)" where
  "vlqLoop in_progress result s =
     (if in_progress then
        (case readByte s of
           Inl e \<Rightarrow> Inl e
         | Inr (temp, s') \<Rightarrow>
             vlqLoop (isMSBHigh temp) (push_bit 7 result OR ucast (temp AND 0x7f)) s')
      else Inr (result, s))"
  by pat_completeness auto
termination
  by (relation "measure (\<lambda>(in_progress, result, s). length (bytes s) - pos s)")
     (auto simp: readByte_def split: if_splits)

definition readVariableLengthData :: "stream \<Rightarrow> error + (u32 \<times> stream)" where
  "readVariableLengthData s =
     (case readByte s of
        Inl e \<Rightarrow> Inl e
      | Inr (temp, s') \<Rightarrow> vlqLoop (isMSBHigh temp) (ucast (temp AND 0x7F)) s')"

text \<open>
  \<^verbatim>\<open>readDefinedLengthData\<close>: the \<^verbatim>\<open>for\<close> loop appends \<open>length\<close> bytes to \<open>value\<close>.
\<close>

fun readDefinedLoop :: "nat \<Rightarrow> u8 list \<Rightarrow> stream \<Rightarrow> error + (u8 list \<times> stream)" where
  "readDefinedLoop 0 val s = Inr (val, s)"
| "readDefinedLoop (Suc n) val s =
     (case readByte s of
        Inl e \<Rightarrow> Inl e
      | Inr (temp, s') \<Rightarrow> readDefinedLoop n (val @ [temp]) s')"

definition readDefinedLengthData :: "stream \<Rightarrow> u32 \<Rightarrow> error + (u8 list \<times> stream)" where
  "readDefinedLengthData s len = readDefinedLoop (unat len) [] s"

section \<open>Notes, reports and the decoder state\<close>

record Note =
  noteNumber :: u8
  on :: bool

text \<open>
  One entry per event line that \<^verbatim>\<open>doWork\<close> prints to \<^verbatim>\<open>cout\<close>, with the values it
  prints (the SMPTE line prints hour, min, sec and subFr; the sequencer-specific case
  prints nothing).
\<close>

datatype report =
    RNoteOff u8 u8 u32
  | RNoteOn u8 u8 u32
  | RNoteAftertouch u8 u8
  | RController u8 u8
  | RProgramChange u8
  | RChannelAfterTouch u8
  | RPitchBend u8 u8
  | RSequenceNumber u8 u8
  | RTextEvent "u8 list"
  | RCopyright "u8 list"
  | RSequenceTrackName "u8 list"
  | RInstrumentName "u8 list"
  | RLyrics "u8 list"
  | RMarker "u8 list"
  | RCuePoint "u8 list"
  | RMidiChannelPrefix u8
  | REndOfTrack
  | RSetTempo u32 u32
  | RSMPTE u32 u32 u32 u32
  | RTimeSignature u8 u8 u8 u8
  | RKeySignature u8 u8
  | RSysexBegin
  | RSysexEnd
  | RStatusByteError u8

text \<open>
  The variables of \<^verbatim>\<open>doWork\<close> that live across loop iterations, the member
  \<^verbatim>\<open>trackNotes\<close> and the printed lines. \<^verbatim>\<open>status\<close> and \<^verbatim>\<open>deltaTime\<close> are
  assigned afresh in every iteration that reads its bytes, so they are local to
  \<open>doEvent\<close>.
\<close>

record dstate =
  "file" :: stream
  prevStatus :: u8
  reachedEndOfTrack :: bool
  trackNotes :: "Note list list"
  out :: "report list"

definition say :: "report \<Rightarrow> dstate \<Rightarrow> dstate" where
  "say r st = st\<lparr>out := out st @ [r]\<rparr>"

text \<open>\<^verbatim>\<open>trackNotes[track_num].push_back(tempNote)\<close>.\<close>

definition pushNote :: "nat \<Rightarrow> Note \<Rightarrow> dstate \<Rightarrow> error + dstate" where
  "pushNote track_num tempNote st =
     (if track_num < length (trackNotes st)
      then Inr (st\<lparr>trackNotes := (trackNotes st)[track_num := trackNotes st ! track_num @ [tempNote]]\<rparr>)
      else Inl NoSuchTrack)"

section \<open>Meta-events\<close>

text \<open>
  The seven text cases: \<^verbatim>\<open>string text = readDefinedLengthData(file, length)\<close>, then one
  printed line.
\<close>

definition textCase :: "(u8 list \<Rightarrow> report) \<Rightarrow> u32 \<Rightarrow> dstate \<Rightarrow> error + dstate" where
  "textCase line len st =
     bindE (readDefinedLengthData (file st) len) (\<lambda>(text, f).
       Inr (say (line text) (st\<lparr>file := f\<rparr>)))"

text \<open>
  The set-tempo arithmetic on \<^verbatim>\<open>uint32_t\<close>, as written in the source:
  \<^verbatim>\<open>mspm = (byte0 << 16) | (byte1 << 8) | (byte0); bpm = 60000000 / mspm;\<close>
  Each payload byte is read into the first byte of a zero-initialised \<^verbatim>\<open>uint32_t\<close>,
  its low byte on the little-endian host that the byte swaps of the header assume; the
  same holds for the five variables of the SMPTE case.
\<close>

definition tempoMspm :: "u8 \<Rightarrow> u8 \<Rightarrow> u8 \<Rightarrow> u32" where
  "tempoMspm byte0 byte1 byte2 =
     push_bit 16 (ucast byte0) OR push_bit 8 (ucast byte1) OR ucast byte0"

definition tempoBpm :: "u32 \<Rightarrow> u32" where
  "tempoBpm mspm = 60000000 div mspm"

text \<open>The \<^verbatim>\<open>switch (type)\<close> of the \<open>0xFF\<close> branch; it has no default case.\<close>

definition metaSwitch :: "u8 \<Rightarrow> u32 \<Rightarrow> dstate \<Rightarrow> error + dstate" where
  "metaSwitch type len st =
     (if type = 0x00 then
        bindE (readByte (file st)) (\<lambda>(msb, f1).
        bindE (readByte f1) (\<lambda>(lsb, f2).
          Inr (say (RSequenceNumber msb lsb) (st\<lparr>file := f2\<rparr>))))
      else if type = 0x01 then textCase RTextEvent len st
      else if type = 0x02 then textCase RCopyright len st
      else if type = 0x03 then textCase RSequenceTrackName len st
      else if type = 0x04 then textCase RInstrumentName len st
      else if type = 0x05 then textCase RLyrics len st
      else if type = 0x06 then textCase RMarker len st
      else if type = 0x07 then textCase RCuePoint len st
      else if type = 0x20 then
        bindE (readByte (file st)) (\<lambda>(channel, f1).
          Inr (say (RMidiChannelPrefix channel) (st\<lparr>file := f1\<rparr>)))
      else if type = 0x2F then
        Inr (say REndOfTrack (st\<lparr>reachedEndOfTrack := True\<rparr>))
      else if type = 0x51 then
        bindE (readByte (file st)) (\<lambda>(byte0, f1).
        bindE (readByte f1) (\<lambda>(byte1, f2).
        bindE (readByte f2) (\<lambda>(byte2, f3).
          let mspm = tempoMspm byte0 byte1 byte2 in
          if mspm = 0 then Inl DivisionByZero
          else Inr (say (RSetTempo mspm (tempoBpm mspm)) (st\<lparr>file := f3\<rparr>)))))
      else if type = 0x54 then
        bindE (readByte (file st)) (\<lambda>(hour, f1).
        bindE (readByte f1) (\<lambda>(min, f2).
        bindE (readByte f2) (\<lambda>(sec, f3).
        bindE (readByte f3) (\<lambda>(fr, f4).
        bindE (readByte f4) (\<lambda>(subFr, f5).
          Inr (say (RSMPTE (ucast hour) (ucast min) (ucast sec) (ucast subFr))
                 (st\<lparr>file := f5\<rparr>)))))))
      else if type = 0x58 then
        bindE (readByte (file st)) (\<lambda>(number, f1).
        bindE (readByte f1) (\<lambda>(denom, f2).
        bindE (readByte f2) (\<lambda>(metro, f3).
        bindE (readByte f3) (\<lambda>(thirtysecondnotes, f4).
          Inr (say (RTimeSignature number denom metro thirtysecondnotes)
                 (st\<lparr>file := f4\<rparr>))))))
      else if type = 0x59 then
        bindE (readByte (file st)) (\<lambda>(key, f1).
        bindE (readByte f1) (\<lambda>(scale, f2).
          Inr (say (RKeySignature key scale) (st\<lparr>file := f2\<rparr>))))
      else if type = 0x7F then
        bindE (readDefinedLengthData (file st) len) (\<lambda>(text, f).
          Inr (st\<lparr>file := f\<rparr>))
      else Inr st)"

text \<open>
  The two sysex branches: a byte read into \<^verbatim>\<open>type\<close>, a variable-length
  \<^verbatim>\<open>length\<close>, then \<^verbatim>\<open>length\<close> bytes of text, and one printed line.
\<close>

definition sysexCase :: "report \<Rightarrow> dstate \<Rightarrow> error + dstate" where
  "sysexCase line st =
     bindE (readByte (file st)) (\<lambda>(type, f1).
     bindE (readVariableLengthData f1) (\<lambda>(len, f2).
     bindE (readDefinedLengthData f2 len) (\<lambda>(text, f3).
       Inr (say line (st\<lparr>file := f3\<rparr>)))))"

text \<open>The body of \<^verbatim>\<open>case (EventType::metaEvent)\<close> after \<^verbatim>\<open>prevStatus = status\<close>.\<close>

definition metaEventCase :: "u8 \<Rightarrow> dstate \<Rightarrow> error + dstate" where
  "metaEventCase status st =
     (if status = 0xFF then
        bindE (readByte (file st)) (\<lambda>(type, f1).
        bindE (readVariableLengthData f1) (\<lambda>(len, f2).
          metaSwitch type len (st\<lparr>file := f2\<rparr>)))
      else if status = 0xF0 then sysexCase RSysexBegin st
      else if status = 0xF7 then sysexCase RSysexEnd st
      else Inr (say (RStatusByteError status) st))"

section \<open>One iteration of the track loop\<close>

text \<open>
  The candidate status byte: \<^verbatim>\<open>file.read((char *)&status, sizeof(char))\<close>, and when it is
  below \<open>0x80\<close> the substitution \<^verbatim>\<open>status = prevStatus\<close> with the one-byte
  \<^verbatim>\<open>seekg(-1)\<close>. Returns the effective status and the stream.
\<close>

definition resolveStatus :: "u8 \<Rightarrow> stream \<Rightarrow> error + (u8 \<times> stream)" where
  "resolveStatus prev s =
     bindE (readByte s) (\<lambda>(status, s1).
       if status < 0x80 then bindE (seekBack s1) (\<lambda>s2. Inr (prev, s2))
       else Inr (status, s1))"

text \<open>
  \<^verbatim>\<open>switch (statusUpper4Bits)\<close>. Every case starts with \<^verbatim>\<open>prevStatus = status\<close>;
  there is no default case, so an upper nibble below 8 does nothing at all.
\<close>

definition eventSwitch :: "nat \<Rightarrow> u32 \<Rightarrow> u8 \<Rightarrow> dstate \<Rightarrow> error + dstate" where
  "eventSwitch track_num deltaTime status st =
     (let statusUpper4Bits = drop_bit 4 status in
      if statusUpper4Bits = 0x8 then
        bindE (readByte (file st)) (\<lambda>(noteNumber, f1).
        bindE (readByte f1) (\<lambda>(velocity, f2).
          pushNote track_num \<lparr>noteNumber = noteNumber, on = False\<rparr>
            (say (RNoteOff noteNumber velocity deltaTime)
               (st\<lparr>prevStatus := status, file := f2\<rparr>))))
      else if statusUpper4Bits = 0x9 then
        bindE (readByte (file st)) (\<lambda>(noteNumber, f1).
        bindE (readByte f1) (\<lambda>(velocity, f2).
          pushNote track_num \<lparr>noteNumber = noteNumber, on = True\<rparr>
            (say (RNoteOn noteNumber velocity deltaTime)
               (st\<lparr>prevStatus := status, file := f2\<rparr>))))
      else if statusUpper4Bits = 0xA then
        bindE (readByte (file st)) (\<lambda>(noteNumber, f1).
        bindE (readByte f1) (\<lambda>(amount, f2).
          Inr (say (RNoteAftertouch noteNumber amount)
                 (st\<lparr>prevStatus := status, file := f2\<rparr>))))
      else if statusUpper4Bits = 0xB then
        bindE (readByte (file st)) (\<lambda>(controllerType, f1).
        bindE (readByte f1) (\<lambda>(val, f2).
          Inr (say (RController controllerType val)
                 (st\<lparr>prevStatus := status, file := f2\<rparr>))))
      else if statusUpper4Bits = 0xC then
        bindE (readByte (file st)) (\<lambda>(programNumber, f1).
          Inr (say (RProgramChange programNumber)
                 (st\<lparr>prevStatus := status, file := f1\<rparr>)))
      else if statusUpper4Bits = 0xD then
        bindE (readByte (file st)) (\<lambda>(amount, f1).
          Inr (say (RChannelAfterTouch amount)
                 (st\<lparr>prevStatus := status, file := f1\<rparr>)))
      else if statusUpper4Bits = 0xE then
        bindE (readByte (file st)) (\<lambda>(valueLSB, f1).
        bindE (readByte f1) (\<lambda>(valueMSB, f2).
          Inr (say (RPitchBend valueLSB valueMSB)
                 (st\<lparr>prevStatus := status, file := f2\<rparr>))))
      else if statusUpper4Bits = 0xF then
        metaEventCase status (st\<lparr>prevStatus := status\<rparr>)
      else Inr st)"

text \<open>The body of \<^verbatim>\<open>while (!reachedEndOfTrack)\<close>, once.\<close>

definition doEvent :: "nat \<Rightarrow> dstate \<Rightarrow> error + dstate" where
  "doEvent track_num st =
     bindE (readVariableLengthData (file st)) (\<lambda>(deltaTime, f1).
     bindE (resolveStatus (prevStatus st) f1) (\<lambda>(status, f2).
       eventSwitch track_num deltaTime status (st\<lparr>file := f2\<rparr>)))"

subsection \<open>The cursor only moves forward\<close>

lemma bindE_simps [simp]:
  "bindE (Inl e) f = Inl e"
  "bindE (Inr x) f = f x"
  by (simp_all add: bindE_def)

lemma bindE_Inr_iff: "bindE m f = Inr y \<longleftrightarrow> (\<exists>x. m = Inr x \<and> f x = Inr y)"
  by (cases m) simp_all

lemma readByte_Inr:
  "readByte s = Inr (b, s') \<Longrightarrow>
     bytes s' = bytes s \<and> pos s' = pos s + 1 \<and> pos s < length (bytes s)"
  by (auto simp: readByte_def split: if_splits)

lemma vlqLoop_forward:
  "vlqLoop ip r s = Inr (v, s') \<Longrightarrow>
     bytes s' = bytes s \<and> pos s \<le> pos s' \<and>
     (pos s \<le> length (bytes s) \<longrightarrow> pos s' \<le> length (bytes s))"
proof (induction ip r s rule: vlqLoop.induct)
  case (1 in_progress result s)
  show ?case
  proof (cases in_progress)
    case False
    with "1.prems" show ?thesis by simp
  next
    case True
    with "1.prems" obtain temp s1 where
      rd: "readByte s = Inr (temp, s1)" and
      rec: "vlqLoop (isMSBHigh temp) (push_bit 7 result OR ucast (temp AND 0x7f)) s1 = Inr (v, s')"
      by (auto split: sum.splits)
    from "1.IH" [OF True rd refl rec] readByte_Inr [OF rd]
    show ?thesis by auto
  qed
qed

lemma readVariableLengthData_forward:
  assumes "readVariableLengthData s = Inr (v, s')"
  shows "bytes s' = bytes s \<and> pos s < pos s' \<and> pos s' \<le> length (bytes s)"
proof -
  from assms obtain temp s1 where
    rd: "readByte s = Inr (temp, s1)" and
    lp: "vlqLoop (isMSBHigh temp) (ucast (temp AND 0x7F)) s1 = Inr (v, s')"
    by (auto simp: readVariableLengthData_def split: sum.splits)
  from vlqLoop_forward [OF lp] readByte_Inr [OF rd] show ?thesis by auto
qed

lemma readDefinedLoop_forward:
  "readDefinedLoop n acc s = Inr (t, s') \<Longrightarrow> bytes s' = bytes s \<and> pos s \<le> pos s'"
proof (induction n arbitrary: acc s)
  case 0
  then show ?case by simp
next
  case (Suc n)
  from Suc.prems obtain temp s1 where
    rd: "readByte s = Inr (temp, s1)" and
    rec: "readDefinedLoop n (acc @ [temp]) s1 = Inr (t, s')"
    by (auto split: sum.splits)
  from Suc.IH [OF rec] readByte_Inr [OF rd] show ?case by auto
qed

lemma readDefinedLengthData_forward:
  "readDefinedLengthData s len = Inr (t, s') \<Longrightarrow> bytes s' = bytes s \<and> pos s \<le> pos s'"
  unfolding readDefinedLengthData_def by (rule readDefinedLoop_forward)

lemma resolveStatus_forward:
  "resolveStatus prev s = Inr (status, s') \<Longrightarrow> bytes s' = bytes s \<and> pos s \<le> pos s'"
  by (auto simp: resolveStatus_def bindE_Inr_iff seekBack_def
      split: if_splits dest!: readByte_Inr)

lemma say_file [simp]: "file (say r st) = file st"
  and say_prevStatus [simp]: "prevStatus (say r st) = prevStatus st"
  and say_reached [simp]: "reachedEndOfTrack (say r st) = reachedEndOfTrack st"
  and say_trackNotes [simp]: "trackNotes (say r st) = trackNotes st"
  and say_out [simp]: "out (say r st) = out st @ [r]"
  by (simp_all add: say_def)

lemma pushNote_Inr:
  "pushNote tn n st = Inr st' \<Longrightarrow>
     file st' = file st \<and> prevStatus st' = prevStatus st \<and>
     reachedEndOfTrack st' = reachedEndOfTrack st \<and> out st' = out st"
  by (auto simp: pushNote_def split: if_splits)

lemma textCase_forward:
  "textCase line len st = Inr st' \<Longrightarrow>
     bytes (file st') = bytes (file st) \<and> pos (file st) \<le> pos (file st')"
  by (auto simp: textCase_def bindE_Inr_iff dest!: readDefinedLengthData_forward)

lemma metaSwitch_forward:
  "metaSwitch type len st = Inr st' \<Longrightarrow>
     bytes (file st') = bytes (file st) \<and> pos (file st) \<le> pos (file st')"
  unfolding metaSwitch_def
  by (auto simp: bindE_Inr_iff Let_def split: if_splits
      dest!: readByte_Inr textCase_forward readDefinedLengthData_forward)

lemma sysexCase_forward:
  "sysexCase line st = Inr st' \<Longrightarrow>
     bytes (file st') = bytes (file st) \<and> pos (file st) \<le> pos (file st')"
  unfolding sysexCase_def
  by (auto simp: bindE_Inr_iff
      dest!: readByte_Inr readVariableLengthData_forward readDefinedLengthData_forward)

lemma metaEventCase_forward:
  "metaEventCase status st = Inr st' \<Longrightarrow>
     bytes (file st') = bytes (file st) \<and> pos (file st) \<le> pos (file st')"
  unfolding metaEventCase_def
  by (auto simp: bindE_Inr_iff split: if_splits
      dest!: readByte_Inr readVariableLengthData_forward metaSwitch_forward sysexCase_forward)

lemma eventSwitch_forward:
  "eventSwitch tn dt status st = Inr st' \<Longrightarrow>
     bytes (file st') = bytes (file st) \<and> pos (file st) \<le> pos (file st')"
  unfolding eventSwitch_def Let_def
  by (auto simp: bindE_Inr_iff split: if_splits
      dest!: readByte_Inr pushNote_Inr metaEventCase_forward)

lemma doEvent_forward:
  "doEvent tn st = Inr st' \<Longrightarrow>
     bytes (file st') = bytes (file st) \<and> pos (file st) < pos (file st') \<and>
     pos (file st) < length (bytes (file st))"
  unfolding doEvent_def
  by (auto simp: bindE_Inr_iff
      dest!: readVariableLengthData_forward resolveStatus_forward eventSwitch_forward)

section \<open>The track loop\<close>

text \<open>
  \<^verbatim>\<open>while (!reachedEndOfTrack) { ... }\<close>. Every iteration that returns has consumed
  at least the first byte of its delta-time, which is why the loop terminates in the
  model.
\<close>

function trackLoop :: "nat \<Rightarrow> dstate \<Rightarrow> error + dstate" where
  "trackLoop track_num st =
     (if reachedEndOfTrack st then Inr st
      else (case doEvent track_num st of
              Inl e \<Rightarrow> Inl e
            | Inr st' \<Rightarrow> trackLoop track_num st'))"
  by pat_completeness auto
termination
proof (relation "measure (\<lambda>(track_num, st). length (bytes (file st)) - pos (file st))")
  show "wf (measure (\<lambda>(track_num, st). length (bytes (file st)) - pos (file st)))"
    by simp
next
  fix track_num :: nat and st st' :: dstate
  assume "doEvent track_num st = Inr st'"
  from doEvent_forward [OF this]
  show "((track_num, st'), (track_num, st))
          \<in> measure (\<lambda>(track_num, st). length (bytes (file st)) - pos (file st))"
    by auto
qed

section \<open>Header, tracks and the whole file\<close>

record Header =
  chunk_type :: u32
  length_h :: u32
  format :: u16
  ntrks :: u16
  division :: u16

definition swapEndianess32 :: "u32 \<Rightarrow> u32" where
  "swapEndianess32 input =
     (let byte0 = drop_bit 24 input AND 0x000000ff;
          byte1 = drop_bit 8 input AND 0x0000ff00;
          byte2 = push_bit 8 input AND 0x00ff0000;
          byte3 = push_bit 24 input AND 0xff000000
      in byte0 OR byte1 OR byte2 OR byte3)"

definition swapEndianess16 :: "u16 \<Rightarrow> u16" where
  "swapEndianess16 input =
     (let byte0 = drop_bit 8 input AND 0x00ff;
          byte1 = push_bit 8 input AND 0xff00
      in byte0 OR byte1)"

text \<open>
  \<^verbatim>\<open>stream_object.read((char *)&header_data, 14)\<close> copies the file's bytes into the
  struct's memory. The fields lie at offsets 0, 4, 8, 10 and 12, and the host reads them
  back least significant byte first (the swap functions exist because of that).
\<close>

definition hostWord32 :: "u8 list \<Rightarrow> u32" where
  "hostWord32 bs =
     ucast (bs ! 0) OR push_bit 8 (ucast (bs ! 1)) OR
     push_bit 16 (ucast (bs ! 2)) OR push_bit 24 (ucast (bs ! 3))"

definition hostWord16 :: "u8 list \<Rightarrow> u16" where
  "hostWord16 bs = ucast (bs ! 0) OR push_bit 8 (ucast (bs ! 1))"

definition acquireHeaderData :: "stream \<Rightarrow> error + (Header \<times> stream)" where
  "acquireHeaderData s =
     bindE (readBlock 14 s) (\<lambda>(buf, s').
       Inr (\<lparr>chunk_type = swapEndianess32 (hostWord32 (take 4 buf)),
             length_h = swapEndianess32 (hostWord32 (take 4 (drop 4 buf))),
             format = swapEndianess16 (hostWord16 (take 2 (drop 8 buf))),
             ntrks = swapEndianess16 (hostWord16 (take 2 (drop 10 buf))),
             division = swapEndianess16 (hostWord16 (take 2 (drop 12 buf)))\<rparr>, s'))"

text \<open>
  The top of the \<^verbatim>\<open>for\<close> body: \<^verbatim>\<open>reachedEndOfTrack = false\<close>, an empty vector
  pushed onto \<^verbatim>\<open>trackNotes\<close>, and the 8 bytes of the track chunk's tag and length read
  into \<^verbatim>\<open>track_chunk\<close>. The two fields are byte-swapped and never looked at again, so
  the model drops them. Nothing else is assigned here: \<^verbatim>\<open>prevStatus\<close> keeps its value.
\<close>

definition trackSetup :: "dstate \<Rightarrow> error + dstate" where
  "trackSetup st =
     bindE (readBlock 8 (file st)) (\<lambda>(track_chunk, f).
       Inr (st\<lparr>reachedEndOfTrack := False, trackNotes := trackNotes st @ [[]], file := f\<rparr>))"

text \<open>\<^verbatim>\<open>for (uint16_t track_num = 0; track_num < header_chunk.ntrks; track_num++)\<close>.\<close>

function tracksLoop :: "nat \<Rightarrow> nat \<Rightarrow> dstate \<Rightarrow> error + dstate" where
  "tracksLoop track_num n st =
     (if track_num < n then
        (case trackSetup st of
           Inl e \<Rightarrow> Inl e
         | Inr st1 \<Rightarrow>
             (case trackLoop track_num st1 of
                Inl e \<Rightarrow> Inl e
              | Inr st2 \<Rightarrow> tracksLoop (track_num + 1) n st2))
      else Inr st)"
  by pat_completeness auto
termination
  by (relation "measure (\<lambda>(track_num, n, st). n - track_num)") auto

text \<open>
  \<^verbatim>\<open>doWork\<close> on the contents of the file. The locals start as the source initialises
  them: \<^verbatim>\<open>prevStatus = 0\<close>, \<^verbatim>\<open>reachedEndOfTrack = false\<close>; \<^verbatim>\<open>trackNotes\<close> is the
  empty member of a fresh parser.
\<close>

definition doWork :: "u8 list \<Rightarrow> error + dstate" where
  "doWork contents =
     bindE (acquireHeaderData \<lparr>bytes = contents, pos = 0\<rparr>) (\<lambda>(header_chunk, f).
       tracksLoop 0 (unat (ntrks header_chunk))
         \<lparr>file = f, prevStatus = 0, reachedEndOfTrack = False, trackNotes = [], out = []\<rparr>)"

definition getTrackNotes :: "dstate \<Rightarrow> Note list list" where
  "getTrackNotes st = trackNotes st"

section \<open>Encodings and layouts used in the statements\<close>

text \<open>
  The source only decodes. The encoding below is the standard one the specification
  names (big-endian, seven bits per byte, the top bit of every byte but the last set):
  \<open>vlqHigh\<close> gives the continuation bytes of the groups above the lowest one, and
  \<open>vlqEncode\<close> appends the lowest group with its top bit clear.
\<close>

fun vlqHigh :: "nat \<Rightarrow> u8 list" where
  "vlqHigh n = (if n = 0 then [] else vlqHigh (n div 128) @ [of_nat (n mod 128) OR 0x80])"

definition vlqEncode :: "u32 \<Rightarrow> u8 list" where
  "vlqEncode v = vlqHigh (unat v div 128) @ [of_nat (unat v mod 128)]"

text \<open>What one round of the decoder's loop does to \<^verbatim>\<open>result\<close>.\<close>

definition vlqStep :: "u32 \<Rightarrow> u8 \<Rightarrow> u32" where
  "vlqStep r b = push_bit 7 r OR ucast (b AND 0x7f)"

text \<open>
  The number of payload bytes each case of the meta-event switch reads: the declared
  length for the text cases and the sequencer-specific case, a fixed number for the
  other interpreted types, and none for end-of-track and for every other type.
\<close>

definition metaConsumed :: "u8 \<Rightarrow> u32 \<Rightarrow> nat" where
  "metaConsumed type len =
     (if type = 0x00 then 2
      else if type \<in> {0x01, 0x02, 0x03, 0x04, 0x05, 0x06, 0x07, 0x7F} then unat len
      else if type = 0x20 then 1
      else if type = 0x51 then 3
      else if type = 0x54 then 5
      else if type = 0x58 then 4
      else if type = 0x59 then 2
      else 0)"

text \<open>The number of data bytes of a channel-voice status.\<close>

definition voiceData :: "u8 \<Rightarrow> nat" where
  "voiceData status = (if drop_bit 4 status \<in> {0xC, 0xD} then 1 else 2)"

definition noteOfVoice :: "u8 \<Rightarrow> u8 \<Rightarrow> Note list" where
  "noteOfVoice status d =
     (if drop_bit 4 status = 0x8 then [\<lparr>noteNumber = d, on = False\<rparr>]
      else if drop_bit 4 status = 0x9 then [\<lparr>noteNumber = d, on = True\<rparr>]
      else [])"

text \<open>
  The events of a track in the layout the specification gives them, which is the layout
  the decoder expects: a channel-voice event is its status byte and its data bytes; a
  meta-event is \<open>0xFF\<close>, the type, the length as a variable-length quantity and the
  payload; a sysex event is \<open>0xF0\<close> or \<open>0xF7\<close>, one more byte, the length and the payload.
  Every event is preceded by its delta-time.
\<close>

datatype tevent =
    Voice u8 "u8 list"
  | Meta u8 "u8 list"
  | Sysex u8 u8 "u8 list"

fun eventBytes :: "tevent \<Rightarrow> u8 list" where
  "eventBytes (Voice status ds) = status # ds"
| "eventBytes (Meta type p) = [0xFF, type] @ vlqEncode (of_nat (length p)) @ p"
| "eventBytes (Sysex status type p) = [status, type] @ vlqEncode (of_nat (length p)) @ p"

definition encodeEvent :: "u32 \<times> tevent \<Rightarrow> u8 list" where
  "encodeEvent x = vlqEncode (fst x) @ eventBytes (snd x)"

text \<open>
  The events whose bytes the decoder consumes exactly: channel-voice events with the
  number of data bytes of their status; meta-events other than end-of-track whose
  payload has the length that the case of their type reads (any length for the text
  types and sequencer-specific, the fixed length for the others, no payload at all for
  an uninterpreted type), with a set-tempo payload that does not make \<^verbatim>\<open>mspm\<close> zero;
  sysex events.
\<close>

fun readInFull :: "tevent \<Rightarrow> bool" where
  "readInFull (Voice status ds) =
     (drop_bit 4 status \<in> {0x8, 0x9, 0xA, 0xB, 0xC, 0xD, 0xE} \<and> length ds = voiceData status)"
| "readInFull (Meta type p) =
     (length p < 2 ^ 32 \<and> type \<noteq> 0x2F \<and>
      length p = metaConsumed type (of_nat (length p)) \<and>
      (if type = 0x51 then tempoMspm (p ! 0) (p ! 1) (p ! 2) \<noteq> 0 else True))"
| "readInFull (Sysex status type p) = ((status = 0xF0 \<or> status = 0xF7) \<and> length p < 2 ^ 32)"

fun notesOf :: "tevent \<Rightarrow> Note list" where
  "notesOf (Voice status ds) = (case ds of [] \<Rightarrow> [] | d # _ \<Rightarrow> noteOfVoice status d)"
| "notesOf (Meta type p) = []"
| "notesOf (Sysex status type p) = []"

text \<open>
  A track chunk: the eight bytes of tag and length, whatever they are, the events and
  the closing end-of-track event.
\<close>

record track =
  chunkHeader :: "u8 list"
  events :: "(u32 \<times> tevent) list"
  lastDelta :: u32

definition trackBytes :: "track \<Rightarrow> u8 list" where
  "trackBytes t =
     chunkHeader t @ concat (map encodeEvent (events t)) @
     vlqEncode (lastDelta t) @ [0xFF, 0x2F, 0x00]"

definition trackReadInFull :: "track \<Rightarrow> bool" where
  "trackReadInFull t \<longleftrightarrow>
     length (chunkHeader t) = 8 \<and> list_all (\<lambda>x. readInFull (snd x)) (events t)"

definition notesOfTrack :: "track \<Rightarrow> Note list" where
  "notesOfTrack t = concat (map (\<lambda>x. notesOf (snd x)) (events t))"

section \<open>Example files\<close>

text \<open>
  A one-track file: note-on 60 with its status byte \<open>0x90\<close>, then the data bytes
  \<open>0x3E 0x50\<close> with no status byte, then end-of-track. The events start at offset 22.
\<close>

definition runningStatusFile :: "u8 list" where
  "runningStatusFile =
     [0x4D, 0x54, 0x68, 0x64, 0, 0, 0, 6, 0, 0, 0, 1, 0, 0x60,
      0x4D, 0x54, 0x72, 0x6B, 0, 0, 0, 11,
      0x00, 0x90, 0x3C, 0x40,
      0x00, 0x3E, 0x50,
      0x00, 0xFF, 0x2F, 0x00]"

text \<open>
  A one-track file whose first event has the data byte \<open>0x3C\<close> where its status byte
  should be; nothing has been recorded in \<open>prevStatus\<close> yet.
\<close>

definition noStatusFile :: "u8 list" where
  "noStatusFile =
     [0x4D, 0x54, 0x68, 0x64, 0, 0, 0, 6, 0, 0, 0, 1, 0, 0x60,
      0x4D, 0x54, 0x72, 0x6B, 0, 0, 0, 6,
      0x00, 0x3C,
      0x00, 0xFF, 0x2F, 0x00]"

text \<open>A one-track file whose chunk declares 100 bytes but ends its track after one note.\<close>

definition shortTrackFile :: "u8 list" where
  "shortTrackFile =
     [0x4D, 0x54, 0x68, 0x64, 0, 0, 0, 6, 0, 0, 0, 1, 0, 0x60,
      0x4D, 0x54, 0x72, 0x6B, 0, 0, 0, 100,
      0x00, 0x90, 0x3C, 0x40,
      0x81, 0x00, 0xFF, 0x2F, 0x00,
      0x00, 0x90, 0x3E, 0x40]"

text \<open>
  A one-track file with the stray status byte \<open>0xF3\<close> between delta-times, followed by
  a note-on and end-of-track.
\<close>

definition strayStatusFile :: "u8 list" where
  "strayStatusFile =
     [0x4D, 0x54, 0x68, 0x64, 0, 0, 0, 6, 0, 0, 0, 1, 0, 0x60,
      0x4D, 0x54, 0x72, 0x6B, 0, 0, 0, 10,
      0x00, 0xF3,
      0x00, 0x90, 0x3C, 0x40,
      0x00, 0xFF, 0x2F, 0x00]"

text \<open>
  A one-track file: a note-on with status \<open>0x90\<close>, a text meta-event of length 0, the
  data bytes \<open>0x3E 0x50\<close> with no status byte, end-of-track.
\<close>

definition metaThenDataFile :: "u8 list" where
  "metaThenDataFile =
     [0x4D, 0x54, 0x68, 0x64, 0, 0, 0, 6, 0, 0, 0, 1, 0, 0x60,
      0x4D, 0x54, 0x72, 0x6B, 0, 0, 0, 15,
      0x00, 0x90, 0x3C, 0x40,
      0x00, 0xFF, 0x01, 0x00,
      0x00, 0x3E, 0x50,
      0x00, 0xFF, 0x2F, 0x00]"

text \<open>
  A two-track file. The first track is a note-on and end-of-track; the events of the
  second track (from offset 38) are a delta-time 0 and the data bytes \<open>0x2F 0x00\<close>, with
  no status byte at all.
\<close>

definition twoTrackFile :: "u8 list" where
  "twoTrackFile =
     [0x4D, 0x54, 0x68, 0x64, 0, 0, 0, 6, 0, 1, 0, 2, 0, 0x60,
      0x4D, 0x54, 0x72, 0x6B, 0, 0, 0, 8,
      0x00, 0x90, 0x3C, 0x40,
      0x00, 0xFF, 0x2F, 0x00,
      0x4D, 0x54, 0x72, 0x6B, 0, 0, 0, 3,
      0x00, 0x2F, 0x00]"

text \<open>
  A one-track file: a meta-event of the type \<open>0x60\<close>, which the source does not
  interpret, with five bytes of payload, then end-of-track.
\<close>

definition unknownMetaFile :: "u8 list" where
  "unknownMetaFile =
     [0x4D, 0x54, 0x68, 0x64, 0, 0, 0, 6, 0, 0, 0, 1, 0, 0x60,
      0x4D, 0x54, 0x72, 0x6B, 0, 0, 0, 13,
      0x00, 0xFF, 0x60, 0x05, 1, 2, 3, 4, 5,
      0x00, 0xFF, 0x2F, 0x00]"

text \<open>
  A two-track file: the same first track, then a second track that holds nothing but
  its end-of-track event. The end-of-track event of the first track is at offset 31, the
  chunk of the second track at offset 35.
\<close>

definition overrunFile :: "u8 list" where
  "overrunFile =
     [0x4D, 0x54, 0x68, 0x64, 0, 0, 0, 6, 0, 1, 0, 2, 0, 0x60,
      0x4D, 0x54, 0x72, 0x6B, 0, 0, 0, 13,
      0x00, 0xFF, 0x60, 0x05, 1, 2, 3, 4, 5,
      0x00, 0xFF, 0x2F, 0x00,
      0x4D, 0x54, 0x72, 0x6B, 0, 0, 0, 4,
      0x00, 0xFF, 0x2F, 0x00]"

text \<open>
  A one-track file: a meta-event of the uninterpreted type \<open>0x60\<close> with the two payload
  bytes \<open>0x00 0xC0\<close>, one note-on (note 60), end-of-track.
\<close>

definition droppedNoteFile :: "u8 list" where
  "droppedNoteFile =
     [0x4D, 0x54, 0x68, 0x64, 0, 0, 0, 6, 0, 0, 0, 1, 0, 0x60,
      0x4D, 0x54, 0x72, 0x6B, 0, 0, 0, 14,
      0x00, 0xFF, 0x60, 0x02, 0x00, 0xC0,
      0x00, 0x90, 0x3C, 0x40,
      0x00, 0xFF, 0x2F, 0x00]"

text \<open>
  The same, with the four payload bytes \<open>0x00 0x90 0x3E 0x00\<close> and no note event.
\<close>

definition phantomNoteFile :: "u8 list" where
  "phantomNoteFile =
     [0x4D, 0x54, 0x68, 0x64, 0, 0, 0, 6, 0, 0, 0, 1, 0, 0x60,
      0x4D, 0x54, 0x72, 0x6B, 0, 0, 0, 12,
      0x00, 0xFF, 0x60, 0x04, 0x00, 0x90, 0x3E, 0x00,
      0x00, 0xFF, 0x2F, 0x00]"

section \<open>The variable-length codec\<close>

declare vlqHigh.simps [simp del]

lemma bit_0x80_int: "bit (0x80 :: int) n \<longleftrightarrow> n = 7"
proof -
  have "(0x80 :: int) = 2 ^ 7" by simp
  then have "bit (0x80 :: int) n \<longleftrightarrow> bit (2 ^ 7 :: int) n" by (simp only:)
  also have "\<dots> \<longleftrightarrow> n = 7" by (simp only: bit_exp_iff) auto
  finally show ?thesis .
qed

lemma bit_0x7f_int: "bit (0x7f :: int) n \<longleftrightarrow> n < 7"
proof -
  have "(0x7f :: int) = mask 7" by (simp add: mask_eq_exp_minus_1)
  then have "bit (0x7f :: int) n \<longleftrightarrow> bit (mask 7 :: int) n" by (simp only:)
  also have "\<dots> \<longleftrightarrow> n < 7" by (simp only: bit_mask_iff) auto
  finally show ?thesis .
qed

lemma bit_0x80: "bit (0x80 :: u8) n \<longleftrightarrow> n = 7"
  by (auto simp add: bit_0x80_int)

lemma bit_0x7f: "bit (0x7f :: u8) n \<longleftrightarrow> n < 7"
  by (auto simp add: bit_0x7f_int)

lemma mod128: "(m::nat) mod 128 = take_bit 7 m" by (simp add: take_bit_eq_mod)

lemma div128: "(m::nat) div 128 = drop_bit 7 m" by (simp add: drop_bit_eq_div)

lemma msb_cont: "isMSBHigh (x OR 0x80)"
proof -
  have "bit ((x OR 0x80) AND 0x80) 7"
    by (simp add: bit_and_iff bit_or_iff bit_0x80_int)
  then have "(x OR 0x80) AND 0x80 \<noteq> 0"
    by (metis bit_0_eq bot_apply bot_bool_def)
  then show ?thesis by (simp add: isMSBHigh_def)
qed

lemma msb_last: "\<not> isMSBHigh (of_nat (m mod 128))"
proof -
  have "(of_nat (take_bit 7 m) :: u8) AND 0x80 = 0"
    by (rule bit_word_eqI)
       (simp add: bit_and_iff bit_0x80_int bit_of_nat_iff bit_take_bit_iff)
  then show ?thesis by (simp add: isMSBHigh_def mod128)
qed

lemma bit_vlqStep:
  "bit (vlqStep r b) n \<longleftrightarrow> (if n < 7 then bit b n else n < 32 \<and> bit r (n - 7))"
  unfolding vlqStep_def
  by (auto simp add: bit_and_iff bit_or_iff bit_0x7f_int bit_ucast_iff bit_push_bit_iff
      dest: bit_imp_le_length)

lemma step_last: "vlqStep (of_nat (m div 128)) (of_nat (m mod 128)) = of_nat m"
proof (rule bit_word_eqI)
  fix n assume "n < LENGTH(32)"
  then show "bit (vlqStep (word_of_nat (m div 128)) (word_of_nat (m mod 128))) n
      = bit (word_of_nat m :: u32) n"
    unfolding mod128 div128 bit_vlqStep
    by (cases "n < 7")
       (auto simp add: bit_of_nat_iff bit_take_bit_iff bit_drop_bit_eq)
qed

lemma step_high: "vlqStep (of_nat (m div 128)) (of_nat (m mod 128) OR 0x80) = of_nat m"
proof (rule bit_word_eqI)
  fix n assume "n < LENGTH(32)"
  then show "bit (vlqStep (word_of_nat (m div 128)) (word_of_nat (m mod 128) OR 0x80)) n
      = bit (word_of_nat m :: u32) n"
    unfolding mod128 div128 bit_vlqStep
    by (cases "n < 7")
       (auto simp add: bit_of_nat_iff bit_take_bit_iff bit_drop_bit_eq bit_or_iff bit_0x80_int)
qed

declare vlqLoop.simps [simp del]

lemma vlqLoop_False: "vlqLoop False acc s = Inr (acc, s)"
  by (simp add: vlqLoop.simps)

lemma vlqLoop_True:
  "readByte s = Inr (x, s') \<Longrightarrow> vlqLoop True acc s = vlqLoop (isMSBHigh x) (vlqStep acc x) s'"
  by (simp add: vlqLoop.simps [of True] vlqStep_def)

lemma readVLQ_as_loop: "readVariableLengthData s = vlqLoop True 0 s"
  by (simp add: readVariableLengthData_def vlqLoop.simps [of True] split: sum.split)

lemma vlqLoop_run:
  "\<lbrakk>bytes s = pre @ xs @ l # post; pos s = length pre;
    \<forall>x \<in> set xs. isMSBHigh x; \<not> isMSBHigh l\<rbrakk> \<Longrightarrow>
   vlqLoop True acc s =
     Inr (foldl vlqStep acc (xs @ [l]), s\<lparr>pos := length pre + length xs + 1\<rparr>)"
proof (induction xs arbitrary: pre acc s)
  case Nil
  then have rd: "readByte s = Inr (l, s\<lparr>pos := length pre + 1\<rparr>)"
    by (simp add: readByte_def)
  from Nil.prems show ?case
    by (simp add: vlqLoop_True [OF rd] vlqLoop_False)
next
  case (Cons x xs)
  have rd: "readByte s = Inr (x, s\<lparr>pos := length pre + 1\<rparr>)"
    using Cons.prems by (simp add: readByte_def)
  have "vlqLoop True (vlqStep acc x) (s\<lparr>pos := length pre + 1\<rparr>) =
      Inr (foldl vlqStep (vlqStep acc x) (xs @ [l]),
           s\<lparr>pos := length pre + 1, pos := length (pre @ [x]) + length xs + 1\<rparr>)"
    using Cons.prems by (intro Cons.IH [where pre = "pre @ [x]"]) simp_all
  with Cons.prems show ?case
    by (simp add: vlqLoop_True [OF rd])
qed

lemma foldl_vlqHigh: "foldl vlqStep 0 (vlqHigh m) = of_nat m"
proof (induction m rule: vlqHigh.induct)
  case (1 n)
  show ?case
  proof (cases "n = 0")
    case True
    then show ?thesis by (simp add: vlqHigh.simps)
  next
    case False
    with 1 show ?thesis
      by (subst vlqHigh.simps) (simp add: step_high)
  qed
qed

lemma vlqHigh_msb: "x \<in> set (vlqHigh m) \<Longrightarrow> isMSBHigh x"
proof (induction m rule: vlqHigh.induct)
  case (1 n)
  show ?case
  proof (cases "n = 0")
    case True
    with "1.prems" show ?thesis by (simp add: vlqHigh.simps)
  next
    case False
    with 1 show ?thesis
      by (subst (asm) vlqHigh.simps) (auto simp add: msb_cont)
  qed
qed

lemma readVariableLengthData_vlqEncode:
  "readVariableLengthData \<lparr>bytes = pre @ vlqEncode v @ post, pos = length pre\<rparr> =
     Inr (v, \<lparr>bytes = pre @ vlqEncode v @ post, pos = length pre + length (vlqEncode v)\<rparr>)"
proof -
  let ?xs = "vlqHigh (unat v div 128)"
  let ?l = "of_nat (unat v mod 128) :: u8"
  let ?s = "\<lparr>bytes = pre @ vlqEncode v @ post, pos = length pre\<rparr>"
  have "vlqLoop True 0 ?s =
      Inr (foldl vlqStep 0 (?xs @ [?l]), ?s\<lparr>pos := length pre + length ?xs + 1\<rparr>)"
    by (rule vlqLoop_run) (simp_all add: vlqEncode_def vlqHigh_msb msb_last)
  moreover have "foldl vlqStep 0 (?xs @ [?l]) = v"
    by (simp add: foldl_vlqHigh step_last)
  ultimately show ?thesis
    by (simp add: readVLQ_as_loop vlqEncode_def)
qed

lemma vlqEncode_examples:
  "vlqEncode 0 = [0x00]"
  "vlqEncode 128 = [0x81, 0x00]"
  "vlqEncode 0x3FFF = [0xFF, 0x7F]"
  "vlqEncode 0x0FFFFFFF = [0xFF, 0xFF, 0xFF, 0x7F]"
  by (simp_all add: vlqEncode_def vlqHigh.simps)

text \<open>
  C9. The decoder \<open>readVariableLengthData\<close> is a left inverse of the standard encoding:
  for every 32-bit value \<open>v\<close> up to \<open>0x0FFFFFFF\<close>, decoding the bytes of \<open>vlqEncode v\<close>
  (wherever they stand in the stream) returns \<open>v\<close> and leaves the cursor right behind
  them. Decoding \<open>[0x00]\<close> gives 0, \<open>[0x81, 0x00]\<close> gives 128 and \<open>[0xFF, 0x7F]\<close>
  gives \<open>0x3FFF\<close>.
\<close>

theorem vlq_roundtrip:
  "(v \<le> 0x0FFFFFFF \<longrightarrow>
      readVariableLengthData \<lparr>bytes = pre @ vlqEncode v @ post, pos = length pre\<rparr> =
        Inr (v, \<lparr>bytes = pre @ vlqEncode v @ post,
                  pos = length pre + length (vlqEncode v)\<rparr>)) \<and>
   readVariableLengthData \<lparr>bytes = [0x00], pos = 0\<rparr> =
     Inr (0, \<lparr>bytes = [0x00], pos = 1\<rparr>) \<and>
   readVariableLengthData \<lparr>bytes = [0x81, 0x00], pos = 0\<rparr> =
     Inr (128, \<lparr>bytes = [0x81, 0x00], pos = 2\<rparr>) \<and>
   readVariableLengthData \<lparr>bytes = [0xFF, 0x7F], pos = 0\<rparr> =
     Inr (0x3FFF, \<lparr>bytes = [0xFF, 0x7F], pos = 2\<rparr>)"
proof -
  have ex: "readVariableLengthData \<lparr>bytes = vlqEncode w, pos = 0\<rparr> =
      Inr (w, \<lparr>bytes = vlqEncode w, pos = length (vlqEncode w)\<rparr>)" for w
    using readVariableLengthData_vlqEncode [where pre = "[]" and v = w and post = "[]"] by simp
  show ?thesis
    using ex [of 0] ex [of 128] ex [of "0x3FFF"]
    by (simp add: readVariableLengthData_vlqEncode vlqEncode_examples)
qed

theorem vlq_roundtrip_witness:
  "(0x0FFFFFFF :: u32) \<le> 0x0FFFFFFF \<and>
   readVariableLengthData \<lparr>bytes = [0xFF, 0xFF, 0xFF, 0x7F], pos = 0\<rparr> =
     Inr (0x0FFFFFFF, \<lparr>bytes = [0xFF, 0xFF, 0xFF, 0x7F], pos = 4\<rparr>)"
  using vlq_roundtrip [where v = "0x0FFFFFFF" and pre = "[]" and post = "[]"]
  by (simp add: vlqEncode_examples)

section \<open>Facts about one iteration and about the loop\<close>

lemma resolveStatus_data:
  "pos s < length (bytes s) \<Longrightarrow> bytes s ! pos s < 0x80 \<Longrightarrow> resolveStatus prev s = Inr (prev, s)"
  by (simp add: resolveStatus_def readByte_def seekBack_def)

lemma resolveStatus_status:
  "pos s < length (bytes s) \<Longrightarrow> \<not> bytes s ! pos s < 0x80 \<Longrightarrow>
     resolveStatus prev s = Inr (bytes s ! pos s, s\<lparr>pos := pos s + 1\<rparr>)"
  by (simp add: resolveStatus_def readByte_def)

lemma upper_nibble_F: "drop_bit 4 (b :: u8) = 0xF \<Longrightarrow> \<not> b < 0x80"
proof
  assume a: "drop_bit 4 b = 0xF" and l: "b < 0x80"
  from l have "unat b < 128" by (simp add: word_less_nat_alt)
  then have "unat b div 16 < 8" by simp
  moreover from a have "unat (drop_bit 4 b) = 15" by simp
  then have "unat b div 16 = 15" by (simp add: drop_bit_eq_div unat_div)
  ultimately show False by simp
qed

lemma textCase_keeps:
  "textCase line len st = Inr st' \<Longrightarrow>
     prevStatus st' = prevStatus st \<and> reachedEndOfTrack st' = reachedEndOfTrack st \<and>
     trackNotes st' = trackNotes st"
  by (auto simp: textCase_def bindE_Inr_iff)

lemma metaSwitch_keeps:
  "metaSwitch type len st = Inr st' \<Longrightarrow>
     prevStatus st' = prevStatus st \<and> trackNotes st' = trackNotes st \<and>
     (reachedEndOfTrack st' \<longleftrightarrow> reachedEndOfTrack st \<or> type = 0x2F)"
  unfolding metaSwitch_def
  by (auto simp: bindE_Inr_iff Let_def split: if_splits dest!: textCase_keeps)

lemma sysexCase_keeps:
  "sysexCase line st = Inr st' \<Longrightarrow>
     prevStatus st' = prevStatus st \<and> reachedEndOfTrack st' = reachedEndOfTrack st \<and>
     trackNotes st' = trackNotes st"
  by (auto simp: sysexCase_def bindE_Inr_iff)

lemma metaEventCase_keeps:
  "metaEventCase status st = Inr st' \<Longrightarrow>
     prevStatus st' = prevStatus st \<and> trackNotes st' = trackNotes st \<and>
     (reachedEndOfTrack st' \<longrightarrow> reachedEndOfTrack st \<or> status = 0xFF)"
  unfolding metaEventCase_def
  by (auto simp: bindE_Inr_iff split: if_splits dest!: metaSwitch_keeps sysexCase_keeps)

lemma eventSwitch_reached:
  "eventSwitch tn dt status st = Inr st' \<Longrightarrow> reachedEndOfTrack st' \<Longrightarrow>
     reachedEndOfTrack st \<or> prevStatus st' = 0xFF"
  unfolding eventSwitch_def Let_def
  by (auto simp: bindE_Inr_iff split: if_splits dest!: pushNote_Inr metaEventCase_keeps)

lemma doEvent_reached:
  "doEvent tn st = Inr st' \<Longrightarrow> reachedEndOfTrack st' \<Longrightarrow>
     reachedEndOfTrack st \<or> prevStatus st' = 0xFF"
  unfolding doEvent_def
  by (auto simp: bindE_Inr_iff dest!: eventSwitch_reached)

declare trackLoop.simps [simp del]

lemma trackLoop_done: "reachedEndOfTrack st \<Longrightarrow> trackLoop tn st = Inr st"
  by (simp add: trackLoop.simps)

lemma trackLoop_step:
  "\<not> reachedEndOfTrack st \<Longrightarrow> doEvent tn st = Inr st' \<Longrightarrow> trackLoop tn st = trackLoop tn st'"
  by (simp add: trackLoop.simps [of tn st])

lemma trackLoop_fail:
  "\<not> reachedEndOfTrack st \<Longrightarrow> doEvent tn st = Inl e \<Longrightarrow> trackLoop tn st = Inl e"
  by (simp add: trackLoop.simps [of tn st])

lemma trackLoop_prevStatus:
  "trackLoop tn st = Inr st' \<Longrightarrow> \<not> reachedEndOfTrack st \<Longrightarrow> prevStatus st' = 0xFF"
proof (induction tn st rule: trackLoop.induct)
  case (1 track_num st)
  from "1.prems" obtain st1 where
    ev: "doEvent track_num st = Inr st1" and lp: "trackLoop track_num st1 = Inr st'"
    by (cases "doEvent track_num st") (simp_all add: trackLoop_fail trackLoop_step)
  show ?case
  proof (cases "reachedEndOfTrack st1")
    case True
    with lp have "st' = st1" by (simp add: trackLoop_done)
    with doEvent_reached [OF ev True] "1.prems" show ?thesis by simp
  next
    case False
    from "1.IH" [OF "1.prems"(2) ev lp False] show ?thesis .
  qed
qed

section \<open>Running status\<close>

lemma eventSwitch_F:
  "drop_bit 4 status = 0xF \<Longrightarrow>
     eventSwitch tn dt status st = metaEventCase status (st\<lparr>prevStatus := status\<rparr>)"
  by (simp add: eventSwitch_def Let_def)

lemma eventSwitch_0: "eventSwitch tn dt 0 st = Inr st"
  by (simp add: eventSwitch_def Let_def)

lemma readVariableLengthData_single:
  "pos s < length (bytes s) \<Longrightarrow> \<not> isMSBHigh (bytes s ! pos s) \<Longrightarrow>
     readVariableLengthData s = Inr (ucast (bytes s ! pos s AND 0x7F), s\<lparr>pos := pos s + 1\<rparr>)"
  by (simp add: readVariableLengthData_def readByte_def vlqLoop_False)

lemma doEvent_running:
  "\<lbrakk>readVariableLengthData (file st) = Inr (dt, f1); pos f1 < length (bytes f1);
    bytes f1 ! pos f1 < 0x80\<rbrakk> \<Longrightarrow>
   doEvent tn st = eventSwitch tn dt (prevStatus st) (st\<lparr>file := f1\<rparr>)"
  by (simp add: doEvent_def resolveStatus_data)

lemma doEvent_explicit:
  "\<lbrakk>readVariableLengthData (file st) = Inr (dt, f1); pos f1 < length (bytes f1);
    \<not> bytes f1 ! pos f1 < 0x80\<rbrakk> \<Longrightarrow>
   doEvent tn st =
     eventSwitch tn dt (bytes f1 ! pos f1) (st\<lparr>file := f1\<lparr>pos := pos f1 + 1\<rparr>\<rparr>)"
  by (simp add: doEvent_def resolveStatus_status)

text \<open>
  C4. A candidate status byte below \<open>0x80\<close> is pushed back (the stream is where it was
  before the byte was read) and the recorded \<open>prevStatus\<close> is the effective status, so
  the iteration is the switch on \<open>prevStatus\<close> with the data byte still to be read. On
  \<open>0x90 0x3C 0x40\<close> followed by \<open>0x3E 0x50\<close> the decoder reports two note-ons, 60 and
  62, the second one under the status \<open>0x90\<close> recorded by the first.
\<close>

theorem running_status:
  "(pos s < length (bytes s) \<and> bytes s ! pos s < 0x80 \<longrightarrow>
      resolveStatus prev s = Inr (prev, s)) \<and>
   (readVariableLengthData (file st) = Inr (dt, f1) \<and> pos f1 < length (bytes f1) \<and>
    bytes f1 ! pos f1 < 0x80 \<longrightarrow>
      doEvent tn st = eventSwitch tn dt (prevStatus st) (st\<lparr>file := f1\<rparr>)) \<and>
   doEvent 0 \<lparr>file = \<lparr>bytes = runningStatusFile, pos = 22\<rparr>, prevStatus = 0,
              reachedEndOfTrack = False, trackNotes = [[]], out = []\<rparr> =
     Inr \<lparr>file = \<lparr>bytes = runningStatusFile, pos = 26\<rparr>, prevStatus = 0x90,
          reachedEndOfTrack = False,
          trackNotes = [[\<lparr>noteNumber = 60, on = True\<rparr>]],
          out = [RNoteOn 60 0x40 0]\<rparr> \<and>
   resolveStatus 0x90 \<lparr>bytes = runningStatusFile, pos = 27\<rparr> =
     Inr (0x90, \<lparr>bytes = runningStatusFile, pos = 27\<rparr>) \<and>
   doEvent 0 \<lparr>file = \<lparr>bytes = runningStatusFile, pos = 26\<rparr>, prevStatus = 0x90,
              reachedEndOfTrack = False,
              trackNotes = [[\<lparr>noteNumber = 60, on = True\<rparr>]],
              out = [RNoteOn 60 0x40 0]\<rparr> =
     Inr \<lparr>file = \<lparr>bytes = runningStatusFile, pos = 29\<rparr>, prevStatus = 0x90,
          reachedEndOfTrack = False,
          trackNotes = [[\<lparr>noteNumber = 60, on = True\<rparr>, \<lparr>noteNumber = 62, on = True\<rparr>]],
          out = [RNoteOn 60 0x40 0, RNoteOn 62 0x50 0]\<rparr> \<and>
   doWork runningStatusFile =
     Inr \<lparr>file = \<lparr>bytes = runningStatusFile, pos = 33\<rparr>, prevStatus = 0xFF,
          reachedEndOfTrack = True,
          trackNotes = [[\<lparr>noteNumber = 60, on = True\<rparr>, \<lparr>noteNumber = 62, on = True\<rparr>]],
          out = [RNoteOn 60 0x40 0, RNoteOn 62 0x50 0, REndOfTrack]\<rparr>"
proof (intro conjI impI)
  show "doWork runningStatusFile =
     Inr \<lparr>file = \<lparr>bytes = runningStatusFile, pos = 33\<rparr>, prevStatus = 0xFF,
          reachedEndOfTrack = True,
          trackNotes = [[\<lparr>noteNumber = 60, on = True\<rparr>, \<lparr>noteNumber = 62, on = True\<rparr>]],
          out = [RNoteOn 60 0x40 0, RNoteOn 62 0x50 0, REndOfTrack]\<rparr>"
    by code_simp
qed (simp_all add: resolveStatus_data doEvent_running, code_simp+)

theorem running_status_witness:
  "readVariableLengthData \<lparr>bytes = runningStatusFile, pos = 26\<rparr> =
     Inr (0, \<lparr>bytes = runningStatusFile, pos = 27\<rparr>) \<and>
   27 < length runningStatusFile \<and> runningStatusFile ! 27 < 0x80 \<and>
   resolveStatus 0x90 \<lparr>bytes = runningStatusFile, pos = 27\<rparr> =
     Inr (0x90, \<lparr>bytes = runningStatusFile, pos = 27\<rparr>) \<and>
   doEvent 0 \<lparr>file = \<lparr>bytes = runningStatusFile, pos = 26\<rparr>, prevStatus = 0x90,
              reachedEndOfTrack = False, trackNotes = [[]], out = []\<rparr> =
     eventSwitch 0 0 0x90
       \<lparr>file = \<lparr>bytes = runningStatusFile, pos = 27\<rparr>, prevStatus = 0x90,
        reachedEndOfTrack = False, trackNotes = [[]], out = []\<rparr>"
proof -
  have rd: "readVariableLengthData \<lparr>bytes = runningStatusFile, pos = 26\<rparr> =
      Inr (0, \<lparr>bytes = runningStatusFile, pos = 27\<rparr>)"
    by code_simp
  have len: "27 < length runningStatusFile" and byte: "runningStatusFile ! 27 < 0x80"
    by (simp_all add: runningStatusFile_def)
  from rd len byte
    running_status [where s = "\<lparr>bytes = runningStatusFile, pos = 27\<rparr>" and prev = "0x90"
      and st = "\<lparr>file = \<lparr>bytes = runningStatusFile, pos = 26\<rparr>, prevStatus = 0x90,
                 reachedEndOfTrack = False, trackNotes = [[]], out = []\<rparr>"
      and dt = 0 and ?f1.0 = "\<lparr>bytes = runningStatusFile, pos = 27\<rparr>" and tn = 0]
  show ?thesis by simp
qed

text \<open>
  C5, as claimed, fails: on \<open>noStatusFile\<close> the decoder raises no error. The first
  iteration only moves the cursor over the delta-time, and the whole decode succeeds.
\<close>

theorem no_running_status_counterexample:
  "doEvent 0 \<lparr>file = \<lparr>bytes = noStatusFile, pos = 22\<rparr>, prevStatus = 0,
              reachedEndOfTrack = False, trackNotes = [[]], out = []\<rparr> =
     Inr \<lparr>file = \<lparr>bytes = noStatusFile, pos = 23\<rparr>, prevStatus = 0,
          reachedEndOfTrack = False, trackNotes = [[]], out = []\<rparr> \<and>
   doWork noStatusFile =
     Inr \<lparr>file = \<lparr>bytes = noStatusFile, pos = 28\<rparr>, prevStatus = 0xFF,
          reachedEndOfTrack = True, trackNotes = [[]], out = [REndOfTrack]\<rparr>"
  by (rule conjI; code_simp)

text \<open>
  C5, amended. When the candidate status byte is below \<open>0x80\<close> and \<open>prevStatus\<close> still
  holds its initial 0, the iteration reports no error: the byte is pushed back, the
  substituted status 0 matches no case of the switch, and the state is unchanged except
  that the cursor stands behind the delta-time, on the data byte.
\<close>

theorem no_running_status_skips:
  "\<lbrakk>readVariableLengthData (file st) = Inr (dt, f1); pos f1 < length (bytes f1);
    bytes f1 ! pos f1 < 0x80; prevStatus st = 0\<rbrakk> \<Longrightarrow>
   doEvent tn st = Inr (st\<lparr>file := f1\<rparr>)"
  by (simp add: doEvent_running eventSwitch_0)

theorem no_running_status_skips_witness:
  "readVariableLengthData \<lparr>bytes = noStatusFile, pos = 22\<rparr> =
     Inr (0, \<lparr>bytes = noStatusFile, pos = 23\<rparr>) \<and>
   23 < length noStatusFile \<and> noStatusFile ! 23 < 0x80 \<and>
   doEvent 0 \<lparr>file = \<lparr>bytes = noStatusFile, pos = 22\<rparr>, prevStatus = 0,
              reachedEndOfTrack = False, trackNotes = [[]], out = []\<rparr> =
     Inr \<lparr>file = \<lparr>bytes = noStatusFile, pos = 23\<rparr>, prevStatus = 0,
          reachedEndOfTrack = False, trackNotes = [[]], out = []\<rparr>"
proof -
  have rd: "readVariableLengthData \<lparr>bytes = noStatusFile, pos = 22\<rparr> =
      Inr (0, \<lparr>bytes = noStatusFile, pos = 23\<rparr>)"
    by code_simp
  have len: "23 < length noStatusFile" and byte: "noStatusFile ! 23 < 0x80"
    by (simp_all add: noStatusFile_def)
  from rd len byte
    no_running_status_skips [where st = "\<lparr>file = \<lparr>bytes = noStatusFile, pos = 22\<rparr>,
        prevStatus = 0, reachedEndOfTrack = False, trackNotes = [[]], out = []\<rparr>"
      and dt = 0 and ?f1.0 = "\<lparr>bytes = noStatusFile, pos = 23\<rparr>" and tn = 0]
  show ?thesis by simp
qed

section \<open>End of track\<close>

lemma isMSBHigh_0: "\<not> isMSBHigh 0"
  by (simp add: isMSBHigh_def)

lemma doEvent_endOfTrack:
  assumes rd: "readVariableLengthData (file st) = Inr (dt, f1)"
    and len: "pos f1 + 2 < length (bytes f1)"
    and b0: "bytes f1 ! pos f1 = 0xFF"
    and b1: "bytes f1 ! (pos f1 + 1) = 0x2F"
    and b2: "bytes f1 ! (pos f1 + 2) = 0x00"
  shows "doEvent tn st =
     Inr (st\<lparr>file := f1\<lparr>pos := pos f1 + 3\<rparr>, prevStatus := 0xFF,
             reachedEndOfTrack := True, out := out st @ [REndOfTrack]\<rparr>)"
proof -
  from len b0 have ev: "doEvent tn st =
      eventSwitch tn dt 0xFF (st\<lparr>file := f1\<lparr>pos := pos f1 + 1\<rparr>\<rparr>)"
    using doEvent_explicit [OF rd, of tn] by simp
  have lenq: "readVariableLengthData (f1\<lparr>pos := pos f1 + 2\<rparr>) =
      Inr (0, f1\<lparr>pos := pos f1 + 3\<rparr>)"
    using len b2 readVariableLengthData_single [of "f1\<lparr>pos := pos f1 + 2\<rparr>"]
    by (simp add: isMSBHigh_0)
  have "metaEventCase 0xFF (st\<lparr>file := f1\<lparr>pos := pos f1 + 1\<rparr>, prevStatus := 0xFF\<rparr>) =
      Inr (st\<lparr>file := f1\<lparr>pos := pos f1 + 3\<rparr>, prevStatus := 0xFF,
              reachedEndOfTrack := True, out := out st @ [REndOfTrack]\<rparr>)"
    using len b1 lenq by (simp add: metaEventCase_def readByte_def metaSwitch_def say_def)
  with ev show ?thesis by (simp add: eventSwitch_F)
qed

text \<open>
  The last iteration. When an iteration of the track loop starts at a delta-time that is
  followed by \<open>0xFF 0x2F 0x00\<close>, the loop returns in that iteration: the cursor stands
  right behind the three bytes, the end-of-track line is the last one reported, and
  nothing behind these bytes is read, whatever it is. The declared chunk length plays no
  part: it is not even part of the state of the loop. This says nothing yet about
  whether the loop, started at the first event of a track, ever stands on that
  delta-time.
\<close>

lemma end_of_track_stops:
  "\<lbrakk>\<not> reachedEndOfTrack st; readVariableLengthData (file st) = Inr (dt, f1);
    pos f1 + 2 < length (bytes f1); bytes f1 ! pos f1 = 0xFF;
    bytes f1 ! (pos f1 + 1) = 0x2F; bytes f1 ! (pos f1 + 2) = 0x00\<rbrakk> \<Longrightarrow>
   trackLoop tn st =
     Inr (st\<lparr>file := f1\<lparr>pos := pos f1 + 3\<rparr>, prevStatus := 0xFF,
             reachedEndOfTrack := True, out := out st @ [REndOfTrack]\<rparr>)"
  by (simp add: trackLoop_step [OF _ doEvent_endOfTrack] trackLoop_done)

lemma end_of_track_stops_witness:
  "readVariableLengthData \<lparr>bytes = shortTrackFile, pos = 26\<rparr> =
     Inr (128, \<lparr>bytes = shortTrackFile, pos = 28\<rparr>) \<and>
   28 + 2 < length shortTrackFile \<and> shortTrackFile ! 28 = 0xFF \<and>
   shortTrackFile ! 29 = 0x2F \<and> shortTrackFile ! 30 = 0x00 \<and>
   trackLoop 0 \<lparr>file = \<lparr>bytes = shortTrackFile, pos = 26\<rparr>, prevStatus = 0x90,
                reachedEndOfTrack = False,
                trackNotes = [[\<lparr>noteNumber = 60, on = True\<rparr>]],
                out = [RNoteOn 60 0x40 0]\<rparr> =
     Inr \<lparr>file = \<lparr>bytes = shortTrackFile, pos = 31\<rparr>, prevStatus = 0xFF,
          reachedEndOfTrack = True,
          trackNotes = [[\<lparr>noteNumber = 60, on = True\<rparr>]],
          out = [RNoteOn 60 0x40 0, REndOfTrack]\<rparr>"
proof -
  have rd: "readVariableLengthData \<lparr>bytes = shortTrackFile, pos = 26\<rparr> =
      Inr (128, \<lparr>bytes = shortTrackFile, pos = 28\<rparr>)"
    by code_simp
  have bs: "28 + 2 < length shortTrackFile" "shortTrackFile ! 28 = 0xFF"
    "shortTrackFile ! 29 = 0x2F" "shortTrackFile ! 30 = 0x00"
    by (simp_all add: shortTrackFile_def)
  from rd bs
    end_of_track_stops [where st = "\<lparr>file = \<lparr>bytes = shortTrackFile, pos = 26\<rparr>,
        prevStatus = 0x90, reachedEndOfTrack = False,
        trackNotes = [[\<lparr>noteNumber = 60, on = True\<rparr>]], out = [RNoteOn 60 0x40 0]\<rparr>"
      and dt = 128 and ?f1.0 = "\<lparr>bytes = shortTrackFile, pos = 28\<rparr>" and tn = 0]
  show ?thesis by simp
qed

section \<open>Status bytes of the \<open>0xF\<close> family\<close>

lemma doEvent_statusByteError:
  assumes rd: "readVariableLengthData (file st) = Inr (dt, f1)"
    and len: "pos f1 < length (bytes f1)"
    and b: "bytes f1 ! pos f1 = b"
    and fam: "drop_bit 4 b = 0xF"
    and other: "b \<noteq> 0xFF" "b \<noteq> 0xF0" "b \<noteq> 0xF7"
  shows "doEvent tn st =
     Inr (st\<lparr>file := f1\<lparr>pos := pos f1 + 1\<rparr>, prevStatus := b,
             out := out st @ [RStatusByteError b]\<rparr>)"
proof -
  from upper_nibble_F [OF fam] b have "\<not> bytes f1 ! pos f1 < 0x80" by simp
  from doEvent_explicit [OF rd len this, of tn] b fam other show ?thesis
    by (simp add: eventSwitch_F metaEventCase_def say_def)
qed

text \<open>
  C8. An explicit status byte with upper nibble \<open>0xF\<close> other than \<open>0xFF\<close>, \<open>0xF0\<close> and
  \<open>0xF7\<close> makes the iteration report a status byte error and nothing else: the cursor
  stands right behind the status byte, the end-of-track flag and the notes are
  untouched, and the iteration returns normally, so the loop goes on with the next
  delta-time (when the track had not ended before). With \<open>0xF3\<close> in front of a note-on
  and an end-of-track, both are decoded.
\<close>

theorem status_byte_error_recovers:
  "(readVariableLengthData (file st) = Inr (dt, f1) \<and> pos f1 < length (bytes f1) \<and>
    bytes f1 ! pos f1 = b \<and> drop_bit 4 b = 0xF \<and> b \<noteq> 0xFF \<and> b \<noteq> 0xF0 \<and> b \<noteq> 0xF7 \<longrightarrow>
      doEvent tn st =
        Inr (st\<lparr>file := f1\<lparr>pos := pos f1 + 1\<rparr>, prevStatus := b,
                out := out st @ [RStatusByteError b]\<rparr>) \<and>
      (\<not> reachedEndOfTrack st \<longrightarrow>
         trackLoop tn st =
           trackLoop tn (st\<lparr>file := f1\<lparr>pos := pos f1 + 1\<rparr>, prevStatus := b,
                            out := out st @ [RStatusByteError b]\<rparr>))) \<and>
   doWork strayStatusFile =
     Inr \<lparr>file = \<lparr>bytes = strayStatusFile, pos = 32\<rparr>, prevStatus = 0xFF,
          reachedEndOfTrack = True,
          trackNotes = [[\<lparr>noteNumber = 60, on = True\<rparr>]],
          out = [RStatusByteError 0xF3, RNoteOn 60 0x40 0, REndOfTrack]\<rparr>"
proof (intro conjI impI; (elim conjE)?)
  show "doWork strayStatusFile =
     Inr \<lparr>file = \<lparr>bytes = strayStatusFile, pos = 32\<rparr>, prevStatus = 0xFF,
          reachedEndOfTrack = True,
          trackNotes = [[\<lparr>noteNumber = 60, on = True\<rparr>]],
          out = [RStatusByteError 0xF3, RNoteOn 60 0x40 0, REndOfTrack]\<rparr>"
    by code_simp
qed (simp_all add: doEvent_statusByteError trackLoop_step [OF _ doEvent_statusByteError])

theorem status_byte_error_recovers_witness:
  "readVariableLengthData \<lparr>bytes = strayStatusFile, pos = 22\<rparr> =
     Inr (0, \<lparr>bytes = strayStatusFile, pos = 23\<rparr>) \<and>
   23 < length strayStatusFile \<and> strayStatusFile ! 23 = 0xF3 \<and>
   drop_bit 4 (0xF3 :: u8) = 0xF \<and>
   doEvent 0 \<lparr>file = \<lparr>bytes = strayStatusFile, pos = 22\<rparr>, prevStatus = 0,
              reachedEndOfTrack = False, trackNotes = [[]], out = []\<rparr> =
     Inr \<lparr>file = \<lparr>bytes = strayStatusFile, pos = 24\<rparr>, prevStatus = 0xF3,
          reachedEndOfTrack = False, trackNotes = [[]], out = [RStatusByteError 0xF3]\<rparr> \<and>
   trackLoop 0 \<lparr>file = \<lparr>bytes = strayStatusFile, pos = 22\<rparr>, prevStatus = 0,
              reachedEndOfTrack = False, trackNotes = [[]], out = []\<rparr> =
     trackLoop 0 \<lparr>file = \<lparr>bytes = strayStatusFile, pos = 24\<rparr>, prevStatus = 0xF3,
          reachedEndOfTrack = False, trackNotes = [[]], out = [RStatusByteError 0xF3]\<rparr>"
proof -
  have rd: "readVariableLengthData \<lparr>bytes = strayStatusFile, pos = 22\<rparr> =
      Inr (0, \<lparr>bytes = strayStatusFile, pos = 23\<rparr>)"
    by code_simp
  have bs: "23 < length strayStatusFile" "strayStatusFile ! 23 = 0xF3"
    by (simp_all add: strayStatusFile_def)
  have nib: "drop_bit 4 (0xF3 :: u8) = 0xF" by simp
  from rd bs nib
    status_byte_error_recovers [where st = "\<lparr>file = \<lparr>bytes = strayStatusFile, pos = 22\<rparr>,
        prevStatus = 0, reachedEndOfTrack = False, trackNotes = [[]], out = []\<rparr>"
      and dt = 0 and ?f1.0 = "\<lparr>bytes = strayStatusFile, pos = 23\<rparr>" and tn = 0
      and b = "0xF3"]
  show ?thesis by simp
qed

text \<open>
  C10. When an iteration reads an explicit status byte \<open>b\<close> with upper nibble \<open>0xF\<close> and
  returns, \<open>prevStatus\<close> is \<open>b\<close>, whatever it was before; if the next iteration then
  finds a data byte where its status byte should be, it is the \<open>0xF\<close> branch
  (\<open>metaEventCase\<close>) run on \<open>b\<close> with the data byte still to be read.
\<close>

theorem meta_status_is_running_status:
  "\<lbrakk>readVariableLengthData (file st) = Inr (dt, f1); pos f1 < length (bytes f1);
    bytes f1 ! pos f1 = b; drop_bit 4 b = 0xF; doEvent tn st = Inr st'\<rbrakk> \<Longrightarrow>
   prevStatus st' = b \<and>
   (readVariableLengthData (file st') = Inr (dt2, f2) \<and> pos f2 < length (bytes f2) \<and>
    bytes f2 ! pos f2 < 0x80 \<longrightarrow>
      doEvent tn st' = metaEventCase b (st'\<lparr>file := f2\<rparr>))"
proof -
  assume rd: "readVariableLengthData (file st) = Inr (dt, f1)"
    and len: "pos f1 < length (bytes f1)"
    and b: "bytes f1 ! pos f1 = b"
    and fam: "drop_bit 4 b = 0xF"
    and ev: "doEvent tn st = Inr st'"
  from upper_nibble_F [OF fam] b have "\<not> bytes f1 ! pos f1 < 0x80" by simp
  from doEvent_explicit [OF rd len this, of tn] ev b fam
  have "metaEventCase b (st\<lparr>file := f1\<lparr>pos := pos f1 + 1\<rparr>, prevStatus := b\<rparr>) = Inr st'"
    by (simp add: eventSwitch_F)
  from metaEventCase_keeps [OF this] have p: "prevStatus st' = b" by simp
  have "doEvent tn st' = metaEventCase b (st'\<lparr>file := f2\<rparr>)"
    if "readVariableLengthData (file st') = Inr (dt2, f2)" "pos f2 < length (bytes f2)"
      "bytes f2 ! pos f2 < 0x80"
  proof -
    have "st'\<lparr>file := f2, prevStatus := b\<rparr> = st'\<lparr>file := f2\<rparr>"
      using p by simp
    with doEvent_running [OF that, of tn] p fam show ?thesis
      by (simp add: eventSwitch_F)
  qed
  with p show ?thesis by simp
qed

theorem meta_status_is_running_status_witness:
  "readVariableLengthData \<lparr>bytes = metaThenDataFile, pos = 26\<rparr> =
     Inr (0, \<lparr>bytes = metaThenDataFile, pos = 27\<rparr>) \<and>
   27 < length metaThenDataFile \<and> metaThenDataFile ! 27 = 0xFF \<and>
   drop_bit 4 (0xFF :: u8) = 0xF \<and>
   doEvent 0 \<lparr>file = \<lparr>bytes = metaThenDataFile, pos = 26\<rparr>, prevStatus = 0x90,
              reachedEndOfTrack = False,
              trackNotes = [[\<lparr>noteNumber = 60, on = True\<rparr>]],
              out = [RNoteOn 60 0x40 0]\<rparr> =
     Inr \<lparr>file = \<lparr>bytes = metaThenDataFile, pos = 30\<rparr>, prevStatus = 0xFF,
          reachedEndOfTrack = False,
          trackNotes = [[\<lparr>noteNumber = 60, on = True\<rparr>]],
          out = [RNoteOn 60 0x40 0, RTextEvent []]\<rparr> \<and>
   readVariableLengthData \<lparr>bytes = metaThenDataFile, pos = 30\<rparr> =
     Inr (0, \<lparr>bytes = metaThenDataFile, pos = 31\<rparr>) \<and>
   31 < length metaThenDataFile \<and> metaThenDataFile ! 31 < 0x80 \<and>
   doEvent 0 \<lparr>file = \<lparr>bytes = metaThenDataFile, pos = 30\<rparr>, prevStatus = 0xFF,
          reachedEndOfTrack = False,
          trackNotes = [[\<lparr>noteNumber = 60, on = True\<rparr>]],
          out = [RNoteOn 60 0x40 0, RTextEvent []]\<rparr> =
     metaEventCase 0xFF
       \<lparr>file = \<lparr>bytes = metaThenDataFile, pos = 31\<rparr>, prevStatus = 0xFF,
          reachedEndOfTrack = False,
          trackNotes = [[\<lparr>noteNumber = 60, on = True\<rparr>]],
          out = [RNoteOn 60 0x40 0, RTextEvent []]\<rparr> \<and>
   doWork metaThenDataFile =
     Inr \<lparr>file = \<lparr>bytes = metaThenDataFile, pos = 37\<rparr>, prevStatus = 0xFF,
          reachedEndOfTrack = True,
          trackNotes = [[\<lparr>noteNumber = 60, on = True\<rparr>]],
          out = [RNoteOn 60 0x40 0, RTextEvent [], REndOfTrack]\<rparr>"
proof -
  have rd: "readVariableLengthData \<lparr>bytes = metaThenDataFile, pos = 26\<rparr> =
      Inr (0, \<lparr>bytes = metaThenDataFile, pos = 27\<rparr>)"
    by code_simp
  have bs: "27 < length metaThenDataFile" "metaThenDataFile ! 27 = 0xFF"
    "31 < length metaThenDataFile" "metaThenDataFile ! 31 < 0x80"
    by (simp_all add: metaThenDataFile_def)
  have nib: "drop_bit 4 (0xFF :: u8) = 0xF" by simp
  have ev: "doEvent 0 \<lparr>file = \<lparr>bytes = metaThenDataFile, pos = 26\<rparr>, prevStatus = 0x90,
              reachedEndOfTrack = False,
              trackNotes = [[\<lparr>noteNumber = 60, on = True\<rparr>]],
              out = [RNoteOn 60 0x40 0]\<rparr> =
     Inr \<lparr>file = \<lparr>bytes = metaThenDataFile, pos = 30\<rparr>, prevStatus = 0xFF,
          reachedEndOfTrack = False,
          trackNotes = [[\<lparr>noteNumber = 60, on = True\<rparr>]],
          out = [RNoteOn 60 0x40 0, RTextEvent []]\<rparr>"
    by code_simp
  have rd2: "readVariableLengthData \<lparr>bytes = metaThenDataFile, pos = 30\<rparr> =
      Inr (0, \<lparr>bytes = metaThenDataFile, pos = 31\<rparr>)"
    by code_simp
  have all: "doWork metaThenDataFile =
     Inr \<lparr>file = \<lparr>bytes = metaThenDataFile, pos = 37\<rparr>, prevStatus = 0xFF,
          reachedEndOfTrack = True,
          trackNotes = [[\<lparr>noteNumber = 60, on = True\<rparr>]],
          out = [RNoteOn 60 0x40 0, RTextEvent [], REndOfTrack]\<rparr>"
    by code_simp
  from rd bs nib ev rd2 all
    meta_status_is_running_status [where st = "\<lparr>file = \<lparr>bytes = metaThenDataFile, pos = 26\<rparr>,
        prevStatus = 0x90, reachedEndOfTrack = False,
        trackNotes = [[\<lparr>noteNumber = 60, on = True\<rparr>]], out = [RNoteOn 60 0x40 0]\<rparr>"
      and dt = 0 and ?f1.0 = "\<lparr>bytes = metaThenDataFile, pos = 27\<rparr>" and tn = 0
      and b = "0xFF" and ?dt2.0 = 0 and ?f2.0 = "\<lparr>bytes = metaThenDataFile, pos = 31\<rparr>"
      and st' = "\<lparr>file = \<lparr>bytes = metaThenDataFile, pos = 30\<rparr>, prevStatus = 0xFF,
          reachedEndOfTrack = False,
          trackNotes = [[\<lparr>noteNumber = 60, on = True\<rparr>]],
          out = [RNoteOn 60 0x40 0, RTextEvent []]\<rparr>"]
  show ?thesis by simp
qed

section \<open>Running status across tracks\<close>

lemma trackSetup_keeps:
  "trackSetup st = Inr st' \<Longrightarrow> prevStatus st' = prevStatus st \<and> \<not> reachedEndOfTrack st'"
  by (auto simp: trackSetup_def bindE_Inr_iff)

text \<open>
  C6, as claimed, fails: on \<open>twoTrackFile\<close> the second track's loop starts with
  \<open>prevStatus = 0xFF\<close>, recorded by the end-of-track event of the first track; the data
  byte \<open>0x2F\<close> is resolved against it, and so the second track "ends" on a meta-event it
  does not contain.
\<close>

theorem running_status_reset_counterexample:
  "trackLoop 0 \<lparr>file = \<lparr>bytes = twoTrackFile, pos = 22\<rparr>, prevStatus = 0,
                reachedEndOfTrack = False, trackNotes = [[]], out = []\<rparr> =
     Inr \<lparr>file = \<lparr>bytes = twoTrackFile, pos = 30\<rparr>, prevStatus = 0xFF,
          reachedEndOfTrack = True,
          trackNotes = [[\<lparr>noteNumber = 60, on = True\<rparr>]],
          out = [RNoteOn 60 0x40 0, REndOfTrack]\<rparr> \<and>
   trackSetup \<lparr>file = \<lparr>bytes = twoTrackFile, pos = 30\<rparr>, prevStatus = 0xFF,
          reachedEndOfTrack = True,
          trackNotes = [[\<lparr>noteNumber = 60, on = True\<rparr>]],
          out = [RNoteOn 60 0x40 0, REndOfTrack]\<rparr> =
     Inr \<lparr>file = \<lparr>bytes = twoTrackFile, pos = 38\<rparr>, prevStatus = 0xFF,
          reachedEndOfTrack = False,
          trackNotes = [[\<lparr>noteNumber = 60, on = True\<rparr>], []],
          out = [RNoteOn 60 0x40 0, REndOfTrack]\<rparr> \<and>
   resolveStatus 0xFF \<lparr>bytes = twoTrackFile, pos = 39\<rparr> =
     Inr (0xFF, \<lparr>bytes = twoTrackFile, pos = 39\<rparr>) \<and>
   doEvent 1 \<lparr>file = \<lparr>bytes = twoTrackFile, pos = 38\<rparr>, prevStatus = 0xFF,
          reachedEndOfTrack = False,
          trackNotes = [[\<lparr>noteNumber = 60, on = True\<rparr>], []],
          out = [RNoteOn 60 0x40 0, REndOfTrack]\<rparr> =
     Inr \<lparr>file = \<lparr>bytes = twoTrackFile, pos = 41\<rparr>, prevStatus = 0xFF,
          reachedEndOfTrack = True,
          trackNotes = [[\<lparr>noteNumber = 60, on = True\<rparr>], []],
          out = [RNoteOn 60 0x40 0, REndOfTrack, REndOfTrack]\<rparr> \<and>
   doWork twoTrackFile =
     Inr \<lparr>file = \<lparr>bytes = twoTrackFile, pos = 41\<rparr>, prevStatus = 0xFF,
          reachedEndOfTrack = True,
          trackNotes = [[\<lparr>noteNumber = 60, on = True\<rparr>], []],
          out = [RNoteOn 60 0x40 0, REndOfTrack, REndOfTrack]\<rparr>"
  by (intro conjI; code_simp)

text \<open>
  C6, amended. \<open>prevStatus\<close> is not reset between tracks. It is set to 0 once, before
  the first track; the setup of a track leaves it alone; and a track loop that returns
  leaves \<open>0xFF\<close> in it, the status of the end-of-track event. So every track after the
  first starts with \<open>prevStatus = 0xFF\<close>, and a data byte in the place of its first
  status byte is resolved as \<open>0xFF\<close>.
\<close>

theorem running_status_carried_over:
  "\<lbrakk>trackSetup st0 = Inr st1; trackLoop tn st1 = Inr st2; trackSetup st2 = Inr st3\<rbrakk> \<Longrightarrow>
   prevStatus st1 = prevStatus st0 \<and> prevStatus st3 = 0xFF \<and>
   (pos s < length (bytes s) \<and> bytes s ! pos s < 0x80 \<longrightarrow>
      resolveStatus (prevStatus st3) s = Inr (0xFF, s))"
proof -
  assume s0: "trackSetup st0 = Inr st1" and lp: "trackLoop tn st1 = Inr st2"
    and s2: "trackSetup st2 = Inr st3"
  from trackSetup_keeps [OF s0] have a: "prevStatus st1 = prevStatus st0"
    and nr: "\<not> reachedEndOfTrack st1" by simp_all
  from trackLoop_prevStatus [OF lp nr] trackSetup_keeps [OF s2]
  have b: "prevStatus st3 = 0xFF" by simp
  from a b show ?thesis by (simp add: resolveStatus_data)
qed

theorem running_status_carried_over_witness:
  "trackSetup \<lparr>file = \<lparr>bytes = twoTrackFile, pos = 14\<rparr>, prevStatus = 0,
                 reachedEndOfTrack = False, trackNotes = [], out = []\<rparr> =
     Inr \<lparr>file = \<lparr>bytes = twoTrackFile, pos = 22\<rparr>, prevStatus = 0,
                reachedEndOfTrack = False, trackNotes = [[]], out = []\<rparr> \<and>
   trackLoop 0 \<lparr>file = \<lparr>bytes = twoTrackFile, pos = 22\<rparr>, prevStatus = 0,
                reachedEndOfTrack = False, trackNotes = [[]], out = []\<rparr> =
     Inr \<lparr>file = \<lparr>bytes = twoTrackFile, pos = 30\<rparr>, prevStatus = 0xFF,
          reachedEndOfTrack = True,
          trackNotes = [[\<lparr>noteNumber = 60, on = True\<rparr>]],
          out = [RNoteOn 60 0x40 0, REndOfTrack]\<rparr> \<and>
   trackSetup \<lparr>file = \<lparr>bytes = twoTrackFile, pos = 30\<rparr>, prevStatus = 0xFF,
          reachedEndOfTrack = True,
          trackNotes = [[\<lparr>noteNumber = 60, on = True\<rparr>]],
          out = [RNoteOn 60 0x40 0, REndOfTrack]\<rparr> =
     Inr \<lparr>file = \<lparr>bytes = twoTrackFile, pos = 38\<rparr>, prevStatus = 0xFF,
          reachedEndOfTrack = False,
          trackNotes = [[\<lparr>noteNumber = 60, on = True\<rparr>], []],
          out = [RNoteOn 60 0x40 0, REndOfTrack]\<rparr> \<and>
   39 < length twoTrackFile \<and> twoTrackFile ! 39 < 0x80 \<and>
   resolveStatus 0xFF \<lparr>bytes = twoTrackFile, pos = 39\<rparr> =
     Inr (0xFF, \<lparr>bytes = twoTrackFile, pos = 39\<rparr>)"
proof -
  have s0: "trackSetup \<lparr>file = \<lparr>bytes = twoTrackFile, pos = 14\<rparr>, prevStatus = 0,
                 reachedEndOfTrack = False, trackNotes = [], out = []\<rparr> =
     Inr \<lparr>file = \<lparr>bytes = twoTrackFile, pos = 22\<rparr>, prevStatus = 0,
                reachedEndOfTrack = False, trackNotes = [[]], out = []\<rparr>"
    by code_simp
  have lp: "trackLoop 0 \<lparr>file = \<lparr>bytes = twoTrackFile, pos = 22\<rparr>, prevStatus = 0,
                reachedEndOfTrack = False, trackNotes = [[]], out = []\<rparr> =
     Inr \<lparr>file = \<lparr>bytes = twoTrackFile, pos = 30\<rparr>, prevStatus = 0xFF,
          reachedEndOfTrack = True,
          trackNotes = [[\<lparr>noteNumber = 60, on = True\<rparr>]],
          out = [RNoteOn 60 0x40 0, REndOfTrack]\<rparr>"
    by code_simp
  have s2: "trackSetup \<lparr>file = \<lparr>bytes = twoTrackFile, pos = 30\<rparr>, prevStatus = 0xFF,
          reachedEndOfTrack = True,
          trackNotes = [[\<lparr>noteNumber = 60, on = True\<rparr>]],
          out = [RNoteOn 60 0x40 0, REndOfTrack]\<rparr> =
     Inr \<lparr>file = \<lparr>bytes = twoTrackFile, pos = 38\<rparr>, prevStatus = 0xFF,
          reachedEndOfTrack = False,
          trackNotes = [[\<lparr>noteNumber = 60, on = True\<rparr>], []],
          out = [RNoteOn 60 0x40 0, REndOfTrack]\<rparr>"
    by code_simp
  have bs: "39 < length twoTrackFile" "twoTrackFile ! 39 < 0x80"
    by (simp_all add: twoTrackFile_def)
  from bs s0 lp s2
    running_status_carried_over [OF s0 lp s2, where s = "\<lparr>bytes = twoTrackFile, pos = 39\<rparr>"]
  show ?thesis by simp
qed

section \<open>Set tempo\<close>

text \<open>
  C1. The claim asks for \<open>mspqn = (b0 << 16) | (b1 << 8) | b2\<close>, which is 500000 on the
  payload \<open>0x07 0xA1 0x20\<close>. The source puts \<^verbatim>\<open>byte0\<close> where \<^verbatim>\<open>byte2\<close> belongs, so
  the set-tempo event with this payload reports 499975 (the quotient is still 120); on
  the payload \<open>0x00 0x75 0x30\<close> (30000 microseconds, 2000 beats per minute) it reports
  29952 and 2003.
\<close>

theorem set_tempo_uses_byte0_twice:
  "tempoMspm 0x07 0xA1 0x20 = 499975 \<and>
   tempoBpm (tempoMspm 0x07 0xA1 0x20) = 120 \<and>
   tempoMspm 0x00 0x75 0x30 = 29952 \<and>
   tempoBpm (tempoMspm 0x00 0x75 0x30) = 2003 \<and>
   doEvent 0 \<lparr>file = \<lparr>bytes = [0x00, 0xFF, 0x51, 0x03, 0x07, 0xA1, 0x20], pos = 0\<rparr>,
              prevStatus = 0, reachedEndOfTrack = False, trackNotes = [[]], out = []\<rparr> =
     Inr \<lparr>file = \<lparr>bytes = [0x00, 0xFF, 0x51, 0x03, 0x07, 0xA1, 0x20], pos = 7\<rparr>,
          prevStatus = 0xFF, reachedEndOfTrack = False, trackNotes = [[]],
          out = [RSetTempo 499975 120]\<rparr>"
  by (intro conjI; code_simp)

section \<open>Meta-events of other types\<close>

text \<open>
  C2. The claim asks that the five payload bytes be consumed, which would leave the
  cursor at offset 31. The switch on the meta type has no default case: the iteration
  ends with the cursor at offset 26, on the first payload byte. The payload is then
  decoded as events (here as a copyright text), and the decode of this well-formed file
  runs off the end of the stream.
\<close>

theorem unknown_meta_payload_not_consumed:
  "doEvent 0 \<lparr>file = \<lparr>bytes = unknownMetaFile, pos = 22\<rparr>, prevStatus = 0,
              reachedEndOfTrack = False, trackNotes = [[]], out = []\<rparr> =
     Inr \<lparr>file = \<lparr>bytes = unknownMetaFile, pos = 26\<rparr>, prevStatus = 0xFF,
          reachedEndOfTrack = False, trackNotes = [[]], out = []\<rparr> \<and>
   doEvent 0 \<lparr>file = \<lparr>bytes = unknownMetaFile, pos = 26\<rparr>, prevStatus = 0xFF,
          reachedEndOfTrack = False, trackNotes = [[]], out = []\<rparr> =
     Inr \<lparr>file = \<lparr>bytes = unknownMetaFile, pos = 32\<rparr>, prevStatus = 0xFF,
          reachedEndOfTrack = False, trackNotes = [[]], out = [RCopyright [4, 5, 0]]\<rparr> \<and>
   doWork unknownMetaFile = Inl ReadPastEnd"
  by (intro conjI; code_simp)

text \<open>
  C7. The claim asks that the loop of a track return at the end-of-track event of the
  track and read nothing behind it. Both \<open>unknownMetaFile\<close> and \<open>overrunFile\<close> hold
  \<open>0x00 0xFF 0x2F 0x00\<close> at offset 31, which is an event boundary of the first track: it
  follows the meta-event of type \<open>0x60\<close> and its five payload bytes. As that payload is
  left in the stream, the decoder is inside an event of its own making when it gets
  there, and reads \<open>0xFF 0x2F\<close> as a delta-time. On \<open>unknownMetaFile\<close> the loop of the
  track runs off the end of the stream. On \<open>overrunFile\<close> it reads on into the chunk of
  the second track and returns at offset 47, behind the end-of-track event of that
  track, where the claim has it return at offset 35.
\<close>

theorem end_of_track_passed_after_unknown_meta:
  "drop 31 unknownMetaFile = [0x00, 0xFF, 0x2F, 0x00] \<and>
   readVariableLengthData \<lparr>bytes = unknownMetaFile, pos = 32\<rparr> =
     Inr (0x3FAF, \<lparr>bytes = unknownMetaFile, pos = 34\<rparr>) \<and>
   trackLoop 0 \<lparr>file = \<lparr>bytes = unknownMetaFile, pos = 22\<rparr>, prevStatus = 0,
                reachedEndOfTrack = False, trackNotes = [[]], out = []\<rparr> =
     Inl ReadPastEnd \<and>
   take 4 (drop 31 overrunFile) = [0x00, 0xFF, 0x2F, 0x00] \<and>
   trackLoop 0 \<lparr>file = \<lparr>bytes = overrunFile, pos = 22\<rparr>, prevStatus = 0,
                reachedEndOfTrack = False, trackNotes = [[]], out = []\<rparr> =
     Inr \<lparr>file = \<lparr>bytes = overrunFile, pos = 47\<rparr>, prevStatus = 0xFF,
          reachedEndOfTrack = True, trackNotes = [[]],
          out = [RCopyright [4, 5, 0], RSequenceNumber 0x54 0x72, RSequenceNumber 0 4,
                 REndOfTrack]\<rparr>"
  by (intro conjI; code_simp)

section \<open>The notes of a track\<close>

text \<open>
  C3. The claim asks for one note per note event of the stream. Because the payload of
  an uninterpreted meta-event is left in the stream and decoded as events, the decode of
  \<open>droppedNoteFile\<close> completes with no note although the track holds a note-on (its
  bytes are eaten as program-change data), and the decode of \<open>phantomNoteFile\<close>
  completes with a note although the track holds no note event.
\<close>

theorem notes_differ_after_unknown_meta:
  "doWork droppedNoteFile =
     Inr \<lparr>file = \<lparr>bytes = droppedNoteFile, pos = 36\<rparr>, prevStatus = 0xFF,
          reachedEndOfTrack = True, trackNotes = [[]],
          out = [RProgramChange 0x00, RProgramChange 0x40, REndOfTrack]\<rparr> \<and>
   map_sum id getTrackNotes (doWork droppedNoteFile) = Inr [[]] \<and>
   map_sum id getTrackNotes (doWork phantomNoteFile) =
     Inr [[\<lparr>noteNumber = 0x3E, on = True\<rparr>]]"
  by (intro conjI; code_simp)

text \<open>
  What does hold on every stream: an iteration that returns has appended exactly one
  note to the current track when the effective status has upper nibble 8 or 9, and has
  left the notes alone otherwise. The note carries the first data byte, and its flag
  is set exactly for nibble 9, whatever the velocity.
\<close>

lemma eventSwitch_trackNotes:
  "eventSwitch tn dt status st = Inr st' \<Longrightarrow>
     trackNotes st' =
       (if drop_bit 4 status = 0x8 \<or> drop_bit 4 status = 0x9
        then (trackNotes st)[tn := trackNotes st ! tn @
               [\<lparr>noteNumber = bytes (file st) ! pos (file st), on = (drop_bit 4 status = 0x9)\<rparr>]]
        else trackNotes st)"
  unfolding eventSwitch_def Let_def
  by (auto simp: bindE_Inr_iff readByte_def pushNote_def
      split: if_splits dest!: metaEventCase_keeps)

lemma doEvent_trackNotes:
  "\<lbrakk>doEvent tn st = Inr st'; readVariableLengthData (file st) = Inr (dt, f1);
    resolveStatus (prevStatus st) f1 = Inr (status, f2)\<rbrakk> \<Longrightarrow>
   trackNotes st' =
     (if drop_bit 4 status = 0x8 \<or> drop_bit 4 status = 0x9
      then (trackNotes st)[tn := trackNotes st ! tn @
             [\<lparr>noteNumber = bytes f2 ! pos f2, on = (drop_bit 4 status = 0x9)\<rparr>]]
      else trackNotes st)"
  using eventSwitch_trackNotes [of tn dt status "st\<lparr>file := f2\<rparr>" st']
  by (simp add: doEvent_def)

section \<open>How many bytes each case consumes\<close>

lemma readByte_ok:
  "pos s < length (bytes s) \<Longrightarrow> readByte s = Inr (bytes s ! pos s, s\<lparr>pos := Suc (pos s)\<rparr>)"
  by (simp add: readByte_def)

lemma readDefinedLoop_ok:
  "n \<le> length (bytes s) - pos s \<Longrightarrow>
     readDefinedLoop n acc s =
       Inr (acc @ take n (drop (pos s) (bytes s)), s\<lparr>pos := pos s + n\<rparr>)"
proof (induction n arbitrary: acc s)
  case 0
  then show ?case by simp
next
  case (Suc n)
  then have lt: "pos s < length (bytes s)" by simp
  have "take (Suc n) (drop (pos s) (bytes s)) =
      bytes s ! pos s # take n (drop (Suc (pos s)) (bytes s))"
    using lt by (simp add: Cons_nth_drop_Suc [symmetric])
  with Suc.prems Suc.IH [of "s\<lparr>pos := Suc (pos s)\<rparr>" "acc @ [bytes s ! pos s]"] lt
  show ?case by (simp add: readByte_ok)
qed

lemma readDefinedLengthData_ok:
  "unat len \<le> length (bytes s) - pos s \<Longrightarrow>
     readDefinedLengthData s len =
       Inr (take (unat len) (drop (pos s) (bytes s)), s\<lparr>pos := pos s + unat len\<rparr>)"
  by (simp add: readDefinedLengthData_def readDefinedLoop_ok)

lemma metaSwitch_ok:
  assumes "metaConsumed type len \<le> length (bytes (file st)) - pos (file st)"
    and "type = 0x51 \<longrightarrow>
      tempoMspm (bytes (file st) ! pos (file st)) (bytes (file st) ! (pos (file st) + 1))
        (bytes (file st) ! (pos (file st) + 2)) \<noteq> 0"
  shows "\<exists>st'. metaSwitch type len st = Inr st' \<and>
     file st' = (file st)\<lparr>pos := pos (file st) + metaConsumed type len\<rparr> \<and>
     trackNotes st' = trackNotes st \<and> prevStatus st' = prevStatus st \<and>
     (reachedEndOfTrack st' \<longleftrightarrow> reachedEndOfTrack st \<or> type = 0x2F)"
  using assms
  unfolding metaSwitch_def metaConsumed_def textCase_def
  by (auto simp add: readByte_ok readDefinedLengthData_ok Let_def split: if_splits)

lemma eventSwitch_voice_ok:
  assumes "drop_bit 4 status \<in> {0x8, 0x9, 0xA, 0xB, 0xC, 0xD, 0xE}"
    and "voiceData status \<le> length (bytes (file st)) - pos (file st)"
    and "tn < length (trackNotes st)"
  shows "\<exists>st'. eventSwitch tn dt status st = Inr st' \<and>
     file st' = (file st)\<lparr>pos := pos (file st) + voiceData status\<rparr> \<and>
     trackNotes st' =
       (trackNotes st)[tn := trackNotes st ! tn @
          noteOfVoice status (bytes (file st) ! pos (file st))] \<and>
     prevStatus st' = status \<and>
     reachedEndOfTrack st' = reachedEndOfTrack st"
  using assms
  unfolding eventSwitch_def voiceData_def noteOfVoice_def Let_def
  by (auto simp add: readByte_ok pushNote_def split: if_splits)

lemma sysexCase_ok:
  assumes "readVariableLengthData ((file st)\<lparr>pos := Suc (pos (file st))\<rparr>) = Inr (len, f2)"
    and "pos (file st) < length (bytes (file st))"
    and "unat len \<le> length (bytes f2) - pos f2"
  shows "\<exists>st'. sysexCase line st = Inr st' \<and>
     file st' = f2\<lparr>pos := pos f2 + unat len\<rparr> \<and>
     trackNotes st' = trackNotes st \<and> prevStatus st' = prevStatus st \<and>
     reachedEndOfTrack st' = reachedEndOfTrack st"
  using assms
  by (simp add: sysexCase_def readByte_ok readDefinedLengthData_ok)

section \<open>Tracks made of events the decoder reads in full\<close>

lemma drop_ConsD:
  "drop n xs = y # ys \<Longrightarrow> n < length xs \<and> xs ! n = y \<and> drop (Suc n) xs = ys"
proof -
  assume d: "drop n xs = y # ys"
  then have lt: "n < length xs" by (cases "n < length xs") simp_all
  from Cons_nth_drop_Suc [OF lt] d show ?thesis using lt by simp
qed

lemma drop_appendD:
  "drop n xs = ys @ zs \<Longrightarrow>
     drop (n + length ys) xs = zs \<and> length ys \<le> length xs - n \<and>
     take (length ys) (drop n xs) = ys"
proof -
  assume d: "drop n xs = ys @ zs"
  have "drop (n + length ys) xs = drop (length ys) (drop n xs)"
    by (simp add: add.commute)
  moreover have "length xs - n = length ys + length zs"
    by (metis d length_append length_drop)
  ultimately show ?thesis using d by simp
qed

lemma vlqEncode_not_Nil: "vlqEncode v \<noteq> []"
  by (simp add: vlqEncode_def)

lemma readVariableLengthData_drop:
  assumes "drop (pos s) (bytes s) = vlqEncode v @ r"
  shows "readVariableLengthData s = Inr (v, s\<lparr>pos := pos s + length (vlqEncode v)\<rparr>)"
proof -
  from assms have "drop (pos s) (bytes s) \<noteq> []"
    by (simp add: vlqEncode_not_Nil)
  then have le: "pos s \<le> length (bytes s)" by simp
  have "bytes s = take (pos s) (bytes s) @ vlqEncode v @ r"
    using assms by (metis append_take_drop_id)
  moreover have "length (take (pos s) (bytes s)) = pos s"
    using le by simp
  ultimately have "s = \<lparr>bytes = take (pos s) (bytes s) @ vlqEncode v @ r,
      pos = length (take (pos s) (bytes s))\<rparr>"
    by (cases s) simp
  then have "readVariableLengthData s =
      readVariableLengthData \<lparr>bytes = take (pos s) (bytes s) @ vlqEncode v @ r,
        pos = length (take (pos s) (bytes s))\<rparr>"
    by simp
  also have "\<dots> = Inr (v, \<lparr>bytes = take (pos s) (bytes s) @ vlqEncode v @ r,
      pos = length (take (pos s) (bytes s)) + length (vlqEncode v)\<rparr>)"
    by (rule readVariableLengthData_vlqEncode)
  also have "\<lparr>bytes = take (pos s) (bytes s) @ vlqEncode v @ r,
      pos = length (take (pos s) (bytes s)) + length (vlqEncode v)\<rparr> =
      s\<lparr>pos := pos s + length (vlqEncode v)\<rparr>"
    using \<open>bytes s = take (pos s) (bytes s) @ vlqEncode v @ r\<close> le by (cases s) simp
  finally show ?thesis .
qed

lemma metaEventCase_FF_drop:
  assumes d: "drop (pos (file st)) (bytes (file st)) = type # vlqEncode len @ p @ rest"
    and lp: "length p = metaConsumed type len"
    and tempo: "type = 0x51 \<longrightarrow> tempoMspm (p ! 0) (p ! 1) (p ! 2) \<noteq> 0"
  shows "\<exists>st'. metaEventCase 0xFF st = Inr st' \<and>
     bytes (file st') = bytes (file st) \<and>
     pos (file st') = pos (file st) + 1 + length (vlqEncode len) + length p \<and>
     trackNotes st' = trackNotes st \<and> prevStatus st' = prevStatus st \<and>
     (reachedEndOfTrack st' \<longleftrightarrow> reachedEndOfTrack st \<or> type = 0x2F)"
proof -
  let ?f = "file st"
  let ?f1 = "?f\<lparr>pos := Suc (pos ?f)\<rparr>"
  let ?f2 = "?f1\<lparr>pos := pos ?f1 + length (vlqEncode len)\<rparr>"
  from drop_ConsD [OF d] have lt: "pos ?f < length (bytes ?f)"
    and b: "bytes ?f ! pos ?f = type"
    and d1: "drop (pos ?f1) (bytes ?f1) = vlqEncode len @ p @ rest"
    by simp_all
  have rd: "readVariableLengthData ?f1 = Inr (len, ?f2)"
    by (rule readVariableLengthData_drop [OF d1])
  from drop_appendD [of "pos ?f1" "bytes ?f1" "vlqEncode len" "p @ rest"] d1
  have d2: "drop (pos ?f2) (bytes ?f2) = p @ rest" by simp
  from drop_appendD [OF d2] lp
  have room: "metaConsumed type len \<le> length (bytes ?f2) - pos ?f2" by simp
  have tempo': "tempoMspm (bytes ?f2 ! pos ?f2) (bytes ?f2 ! (pos ?f2 + 1))
      (bytes ?f2 ! (pos ?f2 + 2)) \<noteq> 0" if t: "type = 0x51"
  proof -
    from t lp have "length p = 3" by (simp add: metaConsumed_def)
    then obtain a b c where p: "p = [a, b, c]"
      by (cases p; cases "tl p"; cases "tl (tl p)") auto
    from d2 p have e0: "drop (pos ?f2) (bytes ?f2) = a # b # c # rest" by simp
    from drop_ConsD [OF e0] have n0: "bytes ?f2 ! pos ?f2 = a"
      and e1: "drop (Suc (pos ?f2)) (bytes ?f2) = b # c # rest" by simp_all
    from drop_ConsD [OF e1] have n1: "bytes ?f2 ! Suc (pos ?f2) = b"
      and e2: "drop (Suc (Suc (pos ?f2))) (bytes ?f2) = c # rest" by simp_all
    from drop_ConsD [OF e2] have n2: "bytes ?f2 ! Suc (Suc (pos ?f2)) = c" by simp
    from tempo t p n0 n1 n2 show ?thesis by simp
  qed
  from metaSwitch_ok [of type len "st\<lparr>file := ?f2\<rparr>"] room tempo'
  obtain st' where "metaSwitch type len (st\<lparr>file := ?f2\<rparr>) = Inr st'"
    and "file st' = ?f2\<lparr>pos := pos ?f2 + metaConsumed type len\<rparr>"
    and "trackNotes st' = trackNotes st" and "prevStatus st' = prevStatus st"
    and "reachedEndOfTrack st' \<longleftrightarrow> reachedEndOfTrack st \<or> type = 0x2F"
    by auto
  with lt b rd lp show ?thesis
    by (simp add: metaEventCase_def readByte_ok)
qed

lemma sysexCase_drop:
  assumes d: "drop (pos (file st)) (bytes (file st)) = type # vlqEncode len @ p @ rest"
    and lp: "length p = unat len"
  shows "\<exists>st'. sysexCase line st = Inr st' \<and>
     bytes (file st') = bytes (file st) \<and>
     pos (file st') = pos (file st) + 1 + length (vlqEncode len) + length p \<and>
     trackNotes st' = trackNotes st \<and> prevStatus st' = prevStatus st \<and>
     reachedEndOfTrack st' = reachedEndOfTrack st"
proof -
  let ?f = "file st"
  let ?f1 = "?f\<lparr>pos := Suc (pos ?f)\<rparr>"
  let ?f2 = "?f1\<lparr>pos := pos ?f1 + length (vlqEncode len)\<rparr>"
  from drop_ConsD [OF d] have lt: "pos ?f < length (bytes ?f)"
    and d1: "drop (pos ?f1) (bytes ?f1) = vlqEncode len @ p @ rest"
    by simp_all
  have rd: "readVariableLengthData ?f1 = Inr (len, ?f2)"
    by (rule readVariableLengthData_drop [OF d1])
  from drop_appendD [of "pos ?f1" "bytes ?f1" "vlqEncode len" "p @ rest"] d1
  have d2: "drop (pos ?f2) (bytes ?f2) = p @ rest" by simp
  from drop_appendD [OF d2] lp
  have room: "unat len \<le> length (bytes ?f2) - pos ?f2" by simp
  from sysexCase_ok [OF rd lt room, of line] lp show ?thesis
    by auto
qed

lemma nibble_ge_8:
  "drop_bit 4 (b :: u8) \<in> {0x8, 0x9, 0xA, 0xB, 0xC, 0xD, 0xE, 0xF} \<Longrightarrow> \<not> b < 0x80"
proof
  assume a: "drop_bit 4 b \<in> {0x8, 0x9, 0xA, 0xB, 0xC, 0xD, 0xE, 0xF}" and l: "b < 0x80"
  from l have "unat b < 128" by (simp add: word_less_nat_alt)
  then have "unat b div 16 < 8" by simp
  then have "unat (drop_bit 4 b) < 8" by (simp add: drop_bit_eq_div unat_div)
  with a show False by auto
qed

lemma unat_of_nat_length: "n < 2 ^ 32 \<Longrightarrow> unat (of_nat n :: u32) = n"
  by (simp add: unat_of_nat)

lemma doEvent_encoded:
  assumes ok: "readInFull e"
    and d: "drop (pos (file st)) (bytes (file st)) = encodeEvent (dt, e) @ rest"
    and tn: "tn < length (trackNotes st)"
  shows "\<exists>st'. doEvent tn st = Inr st' \<and>
     bytes (file st') = bytes (file st) \<and>
     pos (file st') = pos (file st) + length (encodeEvent (dt, e)) \<and>
     trackNotes st' = (trackNotes st)[tn := trackNotes st ! tn @ notesOf e] \<and>
     reachedEndOfTrack st' = reachedEndOfTrack st"
proof -
  let ?f = "file st"
  let ?f1 = "?f\<lparr>pos := pos ?f + length (vlqEncode dt)\<rparr>"
  let ?f2 = "?f1\<lparr>pos := pos ?f1 + 1\<rparr>"
  from d have d0: "drop (pos ?f) (bytes ?f) = vlqEncode dt @ eventBytes e @ rest"
    by (simp add: encodeEvent_def)
  have rd: "readVariableLengthData ?f = Inr (dt, ?f1)"
    by (rule readVariableLengthData_drop [OF d0])
  from drop_appendD [OF d0]
  have d1: "drop (pos ?f1) (bytes ?f1) = eventBytes e @ rest" by simp
  show ?thesis
  proof (cases e)
    case (Voice status ds)
    with d1 have c: "drop (pos ?f1) (bytes ?f1) = status # ds @ rest" by simp
    from drop_ConsD [OF c] have lt: "pos ?f1 < length (bytes ?f1)"
      and b: "bytes ?f1 ! pos ?f1 = status"
      and d2: "drop (pos ?f2) (bytes ?f2) = ds @ rest" by simp_all
    from ok Voice have nib: "drop_bit 4 status \<in> {0x8, 0x9, 0xA, 0xB, 0xC, 0xD, 0xE}"
      and len: "length ds = voiceData status" by simp_all
    from nib have "\<not> status < 0x80" by (intro nibble_ge_8) auto
    with b have expl: "\<not> bytes ?f1 ! pos ?f1 < 0x80" by simp
    have ev: "doEvent tn st = eventSwitch tn dt status (st\<lparr>file := ?f2\<rparr>)"
      using doEvent_explicit [OF rd lt expl, of tn] b by simp
    from drop_appendD [OF d2] len
    have room: "voiceData status \<le> length (bytes ?f2) - pos ?f2" by simp
    from len have "ds \<noteq> []" by (auto simp: voiceData_def split: if_splits)
    then obtain x xs where ds: "ds = x # xs" by (cases ds) auto
    with d2 have "drop (pos ?f2) (bytes ?f2) = x # xs @ rest" by simp
    from drop_ConsD [OF this] have hd: "bytes ?f2 ! pos ?f2 = x" by simp
    from eventSwitch_voice_ok [of status "st\<lparr>file := ?f2\<rparr>" tn dt] nib room tn
    obtain st' where "eventSwitch tn dt status (st\<lparr>file := ?f2\<rparr>) = Inr st'"
      and "file st' = ?f2\<lparr>pos := pos ?f2 + voiceData status\<rparr>"
      and "trackNotes st' = (trackNotes st)[tn := trackNotes st ! tn @
             noteOfVoice status (bytes ?f2 ! pos ?f2)]"
      and "reachedEndOfTrack st' = reachedEndOfTrack st"
      by auto
    with ev hd len Voice ds show ?thesis
      by (simp add: encodeEvent_def)
  next
    case (Meta type p)
    let ?len = "of_nat (length p) :: u32"
    from d1 Meta have c: "drop (pos ?f1) (bytes ?f1) = 0xFF # type # vlqEncode ?len @ p @ rest"
      by simp
    from drop_ConsD [OF c] have lt: "pos ?f1 < length (bytes ?f1)"
      and b: "bytes ?f1 ! pos ?f1 = 0xFF"
      and d2: "drop (pos ?f2) (bytes ?f2) = type # vlqEncode ?len @ p @ rest" by simp_all
    from b have expl: "\<not> bytes ?f1 ! pos ?f1 < 0x80" by simp
    have ev: "doEvent tn st = metaEventCase 0xFF (st\<lparr>file := ?f2, prevStatus := 0xFF\<rparr>)"
      using doEvent_explicit [OF rd lt expl, of tn] b by (simp add: eventSwitch_F)
    from ok Meta have lp: "length p = metaConsumed type ?len"
      and t: "type \<noteq> 0x2F"
      and tempo: "type = 0x51 \<longrightarrow> tempoMspm (p ! 0) (p ! 1) (p ! 2) \<noteq> 0"
      by (simp_all split: if_splits)
    from metaEventCase_FF_drop [of "st\<lparr>file := ?f2, prevStatus := 0xFF\<rparr>" type ?len p rest]
      d2 lp tempo t
    obtain st' where "metaEventCase 0xFF (st\<lparr>file := ?f2, prevStatus := 0xFF\<rparr>) = Inr st'"
      and "bytes (file st') = bytes ?f2"
      and "pos (file st') = pos ?f2 + 1 + length (vlqEncode ?len) + length p"
      and "trackNotes st' = trackNotes st"
      and "reachedEndOfTrack st' = reachedEndOfTrack st"
      by auto
    with ev Meta tn show ?thesis
      by (simp add: encodeEvent_def)
  next
    case (Sysex status type p)
    let ?len = "of_nat (length p) :: u32"
    from d1 Sysex have c: "drop (pos ?f1) (bytes ?f1) = status # type # vlqEncode ?len @ p @ rest"
      by simp
    from drop_ConsD [OF c] have lt: "pos ?f1 < length (bytes ?f1)"
      and b: "bytes ?f1 ! pos ?f1 = status"
      and d2: "drop (pos ?f2) (bytes ?f2) = type # vlqEncode ?len @ p @ rest" by simp_all
    from ok Sysex have s: "status = 0xF0 \<or> status = 0xF7" and lp: "length p < 2 ^ 32"
      by simp_all
    from s b have expl: "\<not> bytes ?f1 ! pos ?f1 < 0x80" by auto
    from s have fam: "drop_bit 4 status = 0xF" by auto
    have ev: "doEvent tn st = metaEventCase status (st\<lparr>file := ?f2, prevStatus := status\<rparr>)"
      using doEvent_explicit [OF rd lt expl, of tn] b fam by (simp add: eventSwitch_F)
    from s have mc: "metaEventCase status (st\<lparr>file := ?f2, prevStatus := status\<rparr>) =
        sysexCase (if status = 0xF0 then RSysexBegin else RSysexEnd)
          (st\<lparr>file := ?f2, prevStatus := status\<rparr>)"
      by (auto simp: metaEventCase_def)
    from sysexCase_drop [of "st\<lparr>file := ?f2, prevStatus := status\<rparr>" type ?len p rest
        "if status = 0xF0 then RSysexBegin else RSysexEnd"]
      d2 lp
    obtain st' where "sysexCase (if status = 0xF0 then RSysexBegin else RSysexEnd)
          (st\<lparr>file := ?f2, prevStatus := status\<rparr>) = Inr st'"
      and "bytes (file st') = bytes ?f2"
      and "pos (file st') = pos ?f2 + 1 + length (vlqEncode ?len) + length p"
      and "trackNotes st' = trackNotes st"
      and "reachedEndOfTrack st' = reachedEndOfTrack st"
      by (auto simp: unat_of_nat_length)
    with ev mc Sysex tn show ?thesis
      by (simp add: encodeEvent_def)
  qed
qed

text \<open>
  A track of such events, closed by an end-of-track event with its own delta-time: the
  loop returns behind the end-of-track event, and the notes it has appended to the
  current track are those of the note-off and note-on events, one each, in order.
\<close>

lemma trackLoop_encoded:
  assumes "\<forall>x \<in> set evs. readInFull (snd x)"
    and "tn < length (trackNotes st)"
    and "\<not> reachedEndOfTrack st"
    and "drop (pos (file st)) (bytes (file st)) =
           concat (map encodeEvent evs) @ vlqEncode dtE @ [0xFF, 0x2F, 0x00] @ rest"
  shows "\<exists>st'. trackLoop tn st = Inr st' \<and>
     trackNotes st' =
       (trackNotes st)[tn := trackNotes st ! tn @ concat (map (\<lambda>x. notesOf (snd x)) evs)] \<and>
     bytes (file st') = bytes (file st) \<and>
     pos (file st') =
       pos (file st) + length (concat (map encodeEvent evs)) + length (vlqEncode dtE) + 3"
  using assms
proof (induction evs arbitrary: st)
  case Nil
  let ?f = "file st"
  let ?f1 = "?f\<lparr>pos := pos ?f + length (vlqEncode dtE)\<rparr>"
  from Nil.prems have d0: "drop (pos ?f) (bytes ?f) = vlqEncode dtE @ [0xFF, 0x2F, 0x00] @ rest"
    by simp
  have rd: "readVariableLengthData ?f = Inr (dtE, ?f1)"
    by (rule readVariableLengthData_drop [OF d0])
  from drop_appendD [OF d0]
  have e0: "drop (pos ?f1) (bytes ?f1) = 0xFF # 0x2F # 0x00 # rest" by simp
  from drop_ConsD [OF e0] have n0: "bytes ?f1 ! pos ?f1 = 0xFF"
    and e1: "drop (Suc (pos ?f1)) (bytes ?f1) = 0x2F # 0x00 # rest" by simp_all
  from drop_ConsD [OF e1] have n1: "bytes ?f1 ! (pos ?f1 + 1) = 0x2F"
    and e2: "drop (Suc (Suc (pos ?f1))) (bytes ?f1) = 0x00 # rest" by simp_all
  from drop_ConsD [OF e2] have n2: "bytes ?f1 ! (pos ?f1 + 2) = 0x00"
    and lt: "pos ?f1 + 2 < length (bytes ?f1)" by simp_all
  have "trackLoop tn st =
      Inr (st\<lparr>file := ?f1\<lparr>pos := pos ?f1 + 3\<rparr>, prevStatus := 0xFF,
              reachedEndOfTrack := True, out := out st @ [REndOfTrack]\<rparr>)"
    using Nil.prems(3)
    by (simp add: trackLoop_step [OF _ doEvent_endOfTrack [OF rd lt n0 n1 n2]] trackLoop_done)
  then show ?case by simp
next
  case (Cons x evs)
  obtain dt e where x: "x = (dt, e)" by (cases x)
  from Cons.prems x have ok: "readInFull e" by simp
  from Cons.prems x have d: "drop (pos (file st)) (bytes (file st)) =
      encodeEvent (dt, e) @
      (concat (map encodeEvent evs) @ vlqEncode dtE @ [0xFF, 0x2F, 0x00] @ rest)"
    by simp
  from doEvent_encoded [OF ok d Cons.prems(2)]
  obtain st1 where ev: "doEvent tn st = Inr st1"
    and b1: "bytes (file st1) = bytes (file st)"
    and p1: "pos (file st1) = pos (file st) + length (encodeEvent (dt, e))"
    and n1: "trackNotes st1 = (trackNotes st)[tn := trackNotes st ! tn @ notesOf e]"
    and r1: "reachedEndOfTrack st1 = reachedEndOfTrack st"
    by auto
  from drop_appendD [OF d] b1 p1
  have d1: "drop (pos (file st1)) (bytes (file st1)) =
      concat (map encodeEvent evs) @ vlqEncode dtE @ [0xFF, 0x2F, 0x00] @ rest"
    by simp
  from Cons.prems have all: "\<forall>x \<in> set evs. readInFull (snd x)" by simp
  from n1 Cons.prems(2) have tn1: "tn < length (trackNotes st1)" by simp
  from r1 Cons.prems(3) have nr1: "\<not> reachedEndOfTrack st1" by simp
  from Cons.IH [OF all tn1 nr1 d1]
  obtain st' where lp: "trackLoop tn st1 = Inr st'"
    and n': "trackNotes st' =
       (trackNotes st1)[tn := trackNotes st1 ! tn @ concat (map (\<lambda>x. notesOf (snd x)) evs)]"
    and b': "bytes (file st') = bytes (file st1)"
    and p': "pos (file st') =
       pos (file st1) + length (concat (map encodeEvent evs)) + length (vlqEncode dtE) + 3"
    by auto
  have "trackLoop tn st = Inr st'"
    using trackLoop_step [OF Cons.prems(3) ev] lp by simp
  moreover have "trackNotes st' =
      (trackNotes st)[tn := trackNotes st ! tn @ concat (map (\<lambda>x. notesOf (snd x)) (x # evs))]"
    using n' n1 Cons.prems(2) x by simp
  ultimately show ?case using b' b1 p' p1 x by simp
qed

lemma readBlock_drop:
  "drop (pos s) (bytes s) = b @ r \<Longrightarrow> b \<noteq> [] \<Longrightarrow>
     readBlock (length b) s = Inr (b, s\<lparr>pos := pos s + length b\<rparr>)"
proof -
  assume d: "drop (pos s) (bytes s) = b @ r" and ne: "b \<noteq> []"
  from drop_appendD [OF d] have "length b \<le> length (bytes s) - pos s"
    and "take (length b) (drop (pos s) (bytes s)) = b" by simp_all
  moreover from d ne have "pos s < length (bytes s)"
    by (cases "pos s < length (bytes s)") simp_all
  ultimately show ?thesis by (simp add: readBlock_def)
qed

declare tracksLoop.simps [simp del]

lemma tracksLoop_encoded:
  assumes "list_all trackReadInFull ts"
    and "length (trackNotes st) = k"
    and "drop (pos (file st)) (bytes (file st)) = concat (map trackBytes ts) @ rest"
  shows "\<exists>st'. tracksLoop k (k + length ts) st = Inr st' \<and>
     trackNotes st' = trackNotes st @ map notesOfTrack ts"
  using assms
proof (induction ts arbitrary: st k)
  case Nil
  then show ?case by (simp add: tracksLoop.simps [of k k])
next
  case (Cons t ts)
  from Cons.prems have ok: "trackReadInFull t" and rest_ok: "list_all trackReadInFull ts"
    by simp_all
  from ok have len8: "length (chunkHeader t) = 8"
    and evs: "\<forall>x \<in> set (events t). readInFull (snd x)"
    by (simp_all add: trackReadInFull_def list_all_iff)
  let ?body = "concat (map encodeEvent (events t)) @ vlqEncode (lastDelta t) @
      [0xFF, 0x2F, 0x00] @ (concat (map trackBytes ts) @ rest)"
  from Cons.prems have d: "drop (pos (file st)) (bytes (file st)) = chunkHeader t @ ?body"
    by (simp add: trackBytes_def [of t])
  from len8 have "chunkHeader t \<noteq> []" by auto
  from readBlock_drop [OF d this] len8
  have rb: "readBlock 8 (file st) = Inr (chunkHeader t, (file st)\<lparr>pos := pos (file st) + 8\<rparr>)"
    by simp
  let ?st1 = "st\<lparr>reachedEndOfTrack := False, trackNotes := trackNotes st @ [[]],
      file := (file st)\<lparr>pos := pos (file st) + 8\<rparr>\<rparr>"
  from rb have ts1: "trackSetup st = Inr ?st1" by (simp add: trackSetup_def)
  from drop_appendD [OF d] len8
  have d1: "drop (pos (file ?st1)) (bytes (file ?st1)) = ?body" by simp
  from Cons.prems(2) have k1: "k < length (trackNotes ?st1)" by simp
  from trackLoop_encoded [OF evs k1 _ d1]
  obtain st2 where lp: "trackLoop k ?st1 = Inr st2"
    and n2: "trackNotes st2 =
       (trackNotes ?st1)[k := trackNotes ?st1 ! k @ notesOfTrack t]"
    and b2: "bytes (file st2) = bytes (file ?st1)"
    and p2: "pos (file st2) = pos (file ?st1) + length (concat (map encodeEvent (events t))) +
       length (vlqEncode (lastDelta t)) + 3"
    by (auto simp: notesOfTrack_def)
  from Cons.prems(2) have "k = length (trackNotes st)" by simp
  with n2 have n2': "trackNotes st2 = trackNotes st @ [notesOfTrack t]"
    by simp
  from drop_appendD [of "pos (file ?st1)" "bytes (file ?st1)"
      "concat (map encodeEvent (events t)) @ vlqEncode (lastDelta t) @ [0xFF, 0x2F, 0x00]"
      "concat (map trackBytes ts) @ rest"] d1 b2 p2
  have d2: "drop (pos (file st2)) (bytes (file st2)) = concat (map trackBytes ts) @ rest"
    by (simp add: ac_simps)
  from n2' Cons.prems(2) have k2: "length (trackNotes st2) = Suc k" by simp
  from Cons.IH [OF rest_ok k2 d2]
  obtain st' where tl: "tracksLoop (Suc k) (Suc k + length ts) st2 = Inr st'"
    and n': "trackNotes st' = trackNotes st2 @ map notesOfTrack ts"
    by auto
  have "tracksLoop k (k + length (t # ts)) st = Inr st'"
    using ts1 lp tl by (simp add: tracksLoop.simps [of k "Suc (k + length ts)" st])
  with n' n2' show ?case by simp
qed

lemma bit_0xff_int: "bit (0xff :: int) n \<longleftrightarrow> n < 8"
proof -
  have "(0xff :: int) = mask 8" by (simp add: mask_eq_exp_minus_1)
  then have "bit (0xff :: int) n \<longleftrightarrow> bit (mask 8 :: int) n" by (simp only:)
  also have "\<dots> \<longleftrightarrow> n < 8" by (simp only: bit_mask_iff) auto
  finally show ?thesis .
qed

lemma bit_0xff00_int: "bit (0xff00 :: int) n \<longleftrightarrow> 8 \<le> n \<and> n < 16"
proof -
  have "(0xff00 :: int) = push_bit 8 (mask 8)" by (simp add: mask_eq_exp_minus_1 push_bit_eq_mult)
  then have "bit (0xff00 :: int) n \<longleftrightarrow> bit (push_bit 8 (mask 8) :: int) n" by (simp only:)
  also have "\<dots> \<longleftrightarrow> 8 \<le> n \<and> n < 16" by (simp only: bit_push_bit_iff bit_mask_iff) auto
  finally show ?thesis .
qed

text \<open>The track count of the header is bytes 10 and 11 of the file, most significant first.\<close>

lemma ntrks_big_endian:
  "swapEndianess16 (hostWord16 [hi, lo]) = push_bit 8 (ucast hi) OR ucast lo"
  unfolding swapEndianess16_def hostWord16_def Let_def
  by (rule bit_word_eqI)
     (auto simp add: bit_and_iff bit_or_iff bit_push_bit_iff bit_drop_bit_eq bit_ucast_iff
        bit_0xff_int bit_0xff00_int dest: bit_imp_le_length)

lemma acquireHeaderData_ntrks:
  assumes "length h = 14"
  shows "\<exists>hd. acquireHeaderData \<lparr>bytes = h @ r, pos = 0\<rparr> = Inr (hd, \<lparr>bytes = h @ r, pos = 14\<rparr>) \<and>
     ntrks hd = push_bit 8 (ucast (h ! 10)) OR ucast (h ! 11)"
proof -
  from assms have rb: "readBlock 14 \<lparr>bytes = h @ r, pos = 0\<rparr> = Inr (h, \<lparr>bytes = h @ r, pos = 14\<rparr>)"
    by (simp add: readBlock_def)
  from assms have "hostWord16 (take 2 (drop 10 h)) = hostWord16 [h ! 10, h ! 11]"
    by (simp add: hostWord16_def)
  then have "swapEndianess16 (hostWord16 (take 2 (drop 10 h))) =
      push_bit 8 (ucast (h ! 10)) OR ucast (h ! 11)"
    by (simp only: ntrks_big_endian)
  with rb show ?thesis
    by (simp add: acquireHeaderData_def)
qed

text \<open>
  The whole file: fourteen header bytes whose track count is the number of tracks, then
  the tracks, then anything. When every event of every track is one the decoder reads
  in full, \<open>doWork\<close> returns, and \<open>getTrackNotes\<close> holds for every track exactly
  the notes of its note-off and note-on events, in order.
\<close>

lemma doWork_encoded:
  assumes len: "length h = 14"
    and cnt: "unat (push_bit 8 (ucast (h ! 10)) OR ucast (h ! 11) :: u16) = length ts"
    and ok: "list_all trackReadInFull ts"
  shows "\<exists>st'. doWork (h @ concat (map trackBytes ts) @ rest) = Inr st' \<and>
     getTrackNotes st' = map notesOfTrack ts"
proof -
  let ?bs = "h @ concat (map trackBytes ts) @ rest"
  let ?st = "\<lparr>file = \<lparr>bytes = ?bs, pos = 14\<rparr>, prevStatus = 0, reachedEndOfTrack = False,
      trackNotes = [], out = []\<rparr>"
  from acquireHeaderData_ntrks [OF len, of "concat (map trackBytes ts) @ rest"]
  obtain hd where ah: "acquireHeaderData \<lparr>bytes = ?bs, pos = 0\<rparr> =
      Inr (hd, \<lparr>bytes = ?bs, pos = 14\<rparr>)"
    and n: "ntrks hd = push_bit 8 (ucast (h ! 10)) OR ucast (h ! 11)"
    by auto
  from len have d: "drop (pos (file ?st)) (bytes (file ?st)) = concat (map trackBytes ts) @ rest"
    by simp
  from tracksLoop_encoded [OF ok _ d, of 0]
  obtain st' where "tracksLoop 0 (length ts) ?st = Inr st'"
    and "trackNotes st' = map notesOfTrack ts"
    by auto
  with ah n cnt show ?thesis
    by (simp add: doWork_def getTrackNotes_def)
qed

text \<open>
  An instance: one track with a note-on, a track name and a note-off (velocity 0 on
  both notes), read back as exactly these two notes.
\<close>

lemma doWork_encoded_example:
  "map_sum id getTrackNotes
     (doWork ([0x4D, 0x54, 0x68, 0x64, 0, 0, 0, 6, 0, 0, 0, 1, 0, 0x60] @
        concat (map trackBytes
          [\<lparr>chunkHeader = [0x4D, 0x54, 0x72, 0x6B, 0, 0, 0, 19],
            events = [(0, Voice 0x90 [60, 0]), (128, Meta 0x03 [0x41, 0x42]),
                      (0, Voice 0x80 [60, 0])],
            lastDelta = 0\<rparr>]) @ [])) =
   Inr [[\<lparr>noteNumber = 60, on = True\<rparr>, \<lparr>noteNumber = 60, on = False\<rparr>]]"
proof -
  let ?h = "[0x4D, 0x54, 0x68, 0x64, 0, 0, 0, 6, 0, 0, 0, 1, 0, 0x60] :: u8 list"
  let ?t = "\<lparr>chunkHeader = [0x4D, 0x54, 0x72, 0x6B, 0, 0, 0, 19],
            events = [(0, Voice 0x90 [60, 0]), (128, Meta 0x03 [0x41, 0x42]),
                      (0, Voice 0x80 [60, 0])],
            lastDelta = 0\<rparr>"
  have ok: "list_all trackReadInFull [?t]"
    by (simp add: trackReadInFull_def voiceData_def metaConsumed_def)
  have cnt: "unat (push_bit 8 (ucast (?h ! 10)) OR ucast (?h ! 11) :: u16) = length [?t]"
    by simp
  from doWork_encoded [of ?h "[?t]" "[]", OF _ cnt ok]
  obtain st' where "doWork (?h @ concat (map trackBytes [?t]) @ []) = Inr st'"
    and "getTrackNotes st' = map notesOfTrack [?t]"
    by auto
  then show ?thesis
    by (simp add: notesOfTrack_def noteOfVoice_def)
qed

end
